theory Spec2Isabelle
  imports Main "HOL-Library.Word"
begin

unbundle bit_operations_syntax

section \<open>Data model of wc2.c\<close>

text \<open>
  A buffer is a list of bytes (\<open>const unsigned char *buf\<close> with its \<open>length\<close>).
  The global \<open>unsigned char table[256][256]\<close> is a function from the row (the state)
  and the column (the byte) to the cell; a cell is a natural number, and every store
  writes its value modulo 256, as a store into an \<open>unsigned char\<close> does. A state is
  a natural number (\<open>unsigned\<close>, \<open>size_t\<close>; the table keeps it below 256).

  The counters are machine integers, with the widths of the LP64 data model:
  \<open>unsigned\<close> has 32 bits, \<open>unsigned long\<close> and \<open>size_t\<close> have 64. So the tallies
  \<open>counts[]\<close> of \<open>parse_chunk\<close> and \<open>parse_chunk_p\<close> (\<open>unsigned\<close>) wrap around at
  \<open>2^32\<close>, and the tallies of \<open>parse_chunk_pp\<close> and the fields of \<open>struct results\<close>
  (\<open>unsigned long\<close>) at \<open>2^64\<close>.
\<close>

type_synonym byte = "8 word"
type_synonym uint = "32 word"
type_synonym ulong = "64 word"
type_synonym row = "nat \<Rightarrow> nat"
type_synonym table = "nat \<Rightarrow> nat \<Rightarrow> nat"

record results =
  line_count :: ulong
  word_count :: ulong
  char_count :: ulong
  byte_count :: ulong

subsection \<open>The first enum: the states inside a UTF-8 sequence\<close>

definition DUO2_xx :: nat where "DUO2_xx = 0"
definition DUO2_C2 :: nat where "DUO2_C2 = 1"
definition TRI2_E0 :: nat where "TRI2_E0 = 2"
definition TRI2_E1 :: nat where "TRI2_E1 = 3"
definition TRI2_E2 :: nat where "TRI2_E2 = 4"
definition TRI2_E3 :: nat where "TRI2_E3 = 5"
definition TRI2_ED :: nat where "TRI2_ED = 6"
definition TRI2_EE :: nat where "TRI2_EE = 7"
definition TRI2_xx :: nat where "TRI2_xx = 8"
definition TRI3_E0_xx :: nat where "TRI3_E0_xx = 9"
definition TRI3_E1_xx :: nat where "TRI3_E1_xx = 10"
definition TRI3_E1_9a :: nat where "TRI3_E1_9a = 11"
definition TRI3_E2_80 :: nat where "TRI3_E2_80 = 12"
definition TRI3_E2_81 :: nat where "TRI3_E2_81 = 13"
definition TRI3_E2_xx :: nat where "TRI3_E2_xx = 14"
definition TRI3_E3_80 :: nat where "TRI3_E3_80 = 15"
definition TRI3_E3_81 :: nat where "TRI3_E3_81 = 16"
definition TRI3_E3_xx :: nat where "TRI3_E3_xx = 17"
definition TRI3_Ed_xx :: nat where "TRI3_Ed_xx = 18"
definition TRI3_Ee_xx :: nat where "TRI3_Ee_xx = 19"
definition TRI3_xx_xx :: nat where "TRI3_xx_xx = 20"
definition QUAD2_xx :: nat where "QUAD2_xx = 21"
definition QUAD2_F0 :: nat where "QUAD2_F0 = 22"
definition QUAD2_F4 :: nat where "QUAD2_F4 = 23"
definition QUAD3_xx_xx :: nat where "QUAD3_xx_xx = 24"
definition QUAD3_F0_xx :: nat where "QUAD3_F0_xx = 25"
definition QUAD3_F4_xx :: nat where "QUAD3_F4_xx = 26"
definition QUAD4_xx_xx_xx :: nat where "QUAD4_xx_xx_xx = 27"
definition QUAD4_F0_xx_xx :: nat where "QUAD4_F0_xx_xx = 28"
definition QUAD4_F4_xx_xx :: nat where "QUAD4_F4_xx_xx = 29"
definition ILLEGAL :: nat where "ILLEGAL = 30"

subsection \<open>The second enum: the four counted states and the two bases\<close>

definition WASSPACE :: nat where "WASSPACE = 0"
definition NEWLINE :: nat where "NEWLINE = 1"
definition NEWWORD :: nat where "NEWWORD = 2"
definition WASWORD :: nat where "WASWORD = 3"
definition USPACE :: nat where "USPACE = 4"
definition UWORD :: nat where "UWORD = USPACE + ILLEGAL + 1"
definition STATE_MAX :: nat where "STATE_MAX = UWORD + ILLEGAL + 1"

section \<open>The table builder\<close>

text \<open>
  \<open>isspace\<close> and \<open>iswspace\<close> belong to the C library and follow the locale that
  \<open>setlocale(LC_ALL, "")\<close> selects, so the builder takes both classifiers as
  parameters. \<open>table[i][j] = v\<close> is \<open>set_cell\<close>.
\<close>

definition set_cell :: "table \<Rightarrow> nat \<Rightarrow> nat \<Rightarrow> nat \<Rightarrow> table" where
  "set_cell t i j v = t(i := (t i)(j := v mod 256))"

text \<open>The value that the loop body of \<open>build_basic\<close> stores into \<open>row[c]\<close>.\<close>

definition basic_cell :: "(nat \<Rightarrow> bool) \<Rightarrow> nat \<Rightarrow> nat \<Rightarrow> nat \<Rightarrow> nat" where
  "basic_cell isspace default_state ubase c =
    (if c AND 0x80 \<noteq> 0 then
       (if c AND 0xE0 = 0xC0 then
          (if c < 0xC2 then (ubase + ILLEGAL) mod 256
           else if c = 0xC2 then (ubase + DUO2_C2) mod 256
           else (ubase + DUO2_xx) mod 256)
        else if c AND 0xF0 = 0xE0 then
          (if c = 0xE0 then (ubase + TRI2_E0) mod 256
           else if c = 0xE1 then (ubase + TRI2_E1) mod 256
           else if c = 0xE2 then (ubase + TRI2_E2) mod 256
           else if c = 0xE3 then (ubase + TRI2_E3) mod 256
           else if c = 0xED then (ubase + TRI2_ED) mod 256
           else if c = 0xEE then (ubase + TRI2_EE) mod 256
           else (ubase + TRI2_xx) mod 256)
        else if c AND 0xF8 = 0xF0 then
          (if 0xF5 \<le> c then (ubase + ILLEGAL) mod 256
           else if c = 0xF0 then (ubase + QUAD2_F0) mod 256
           else if c = 0xF4 then (ubase + QUAD2_F4) mod 256
           else (ubase + QUAD2_xx) mod 256)
        else (ubase + ILLEGAL) mod 256)
     else if c = 10 then NEWLINE
     else if isspace c then WASSPACE
     else default_state)"

definition build_basic :: "(nat \<Rightarrow> bool) \<Rightarrow> row \<Rightarrow> nat \<Rightarrow> nat \<Rightarrow> row" where
  "build_basic isspace row default_state ubase =
     fold (\<lambda>c r. r(c := basic_cell isspace default_state ubase c)) [0..<256] row"

definition build_WASSPACE :: "(nat \<Rightarrow> bool) \<Rightarrow> row \<Rightarrow> row" where
  "build_WASSPACE isspace row = build_basic isspace row NEWWORD USPACE"

definition build_WASWORD :: "(nat \<Rightarrow> bool) \<Rightarrow> row \<Rightarrow> row" where
  "build_WASWORD isspace row = build_basic isspace row WASWORD UWORD"

text \<open>
  \<open>build_urow\<close>: the row of state \<open>ubase + id\<close> starts as a copy of the 256 cells of the
  row of \<open>ubase + ILLEGAL\<close>; then the continuation bytes go to \<open>next\<close> (or, when
  \<open>next\<close> is 0, to the cell that the ILLEGAL row holds for byte 0), and the bytes from
  0xC0 on go to ILLEGAL.
\<close>

definition build_urow :: "nat \<Rightarrow> nat \<Rightarrow> nat \<Rightarrow> table \<Rightarrow> table" where
  "build_urow ubase id' next' t =
    (let default_state = t (ubase + ILLEGAL) 0;
         nxt = (if next' = 0 then default_state else ubase + next');
         t = t(ubase + id' := (\<lambda>j. if j < 256 then t (ubase + ILLEGAL) j else t (ubase + id') j));
         t = fold (\<lambda>i t. set_cell t (ubase + id') i nxt) [0x80..<0xC0] t;
         t = fold (\<lambda>i t. set_cell t (ubase + id') i (ubase + ILLEGAL)) [0xC0..<0x100] t
     in t)"

text \<open>The five blocks of \<open>build_unicode\<close>, in the order of the source.\<close>

definition two_byte :: "nat \<Rightarrow> table \<Rightarrow> table" where
  "two_byte ubase t =
    (let t = build_urow ubase DUO2_xx 0 t;
         t = build_urow ubase DUO2_C2 0 t
     in t)"

definition three_byte :: "nat \<Rightarrow> table \<Rightarrow> table" where
  "three_byte ubase t =
    (let t = build_urow ubase TRI2_E0 TRI3_E0_xx t;
         t = build_urow ubase TRI2_E1 TRI3_E1_xx t;
         t = build_urow ubase TRI2_E2 TRI3_E2_xx t;
         t = build_urow ubase TRI2_E3 TRI3_E3_xx t;
         t = build_urow ubase TRI2_ED TRI3_Ed_xx t;
         t = build_urow ubase TRI2_EE TRI3_Ee_xx t;
         t = build_urow ubase TRI2_xx TRI3_xx_xx t;
         t = build_urow ubase TRI3_E0_xx 0 t;
         t = build_urow ubase TRI3_E1_xx 0 t;
         t = build_urow ubase TRI3_E1_9a 0 t;
         t = build_urow ubase TRI3_E2_80 0 t;
         t = build_urow ubase TRI3_E2_81 0 t;
         t = build_urow ubase TRI3_E2_xx 0 t;
         t = build_urow ubase TRI3_E3_80 0 t;
         t = build_urow ubase TRI3_E3_81 0 t;
         t = build_urow ubase TRI3_E3_xx 0 t;
         t = build_urow ubase TRI3_Ed_xx 0 t;
         t = build_urow ubase TRI3_Ee_xx 0 t;
         t = build_urow ubase TRI3_xx_xx 0 t;
         t = set_cell t (ubase + TRI2_E1) 0x9a (ubase + TRI3_E1_9a);
         t = set_cell t (ubase + TRI2_E2) 0x80 (ubase + TRI3_E2_80);
         t = set_cell t (ubase + TRI2_E2) 0x81 (ubase + TRI3_E2_81);
         t = set_cell t (ubase + TRI2_E3) 0x80 (ubase + TRI3_E3_80);
         t = set_cell t (ubase + TRI2_E3) 0x81 (ubase + TRI3_E3_81)
     in t)"

definition four_byte :: "nat \<Rightarrow> table \<Rightarrow> table" where
  "four_byte ubase t =
    (let t = build_urow ubase QUAD2_xx QUAD3_xx_xx t;
         t = build_urow ubase QUAD2_F0 QUAD3_F0_xx t;
         t = build_urow ubase QUAD2_F4 QUAD3_F4_xx t;
         t = build_urow ubase QUAD3_xx_xx QUAD4_xx_xx_xx t;
         t = build_urow ubase QUAD3_F0_xx QUAD4_F0_xx_xx t;
         t = build_urow ubase QUAD3_F4_xx QUAD4_F4_xx_xx t;
         t = build_urow ubase QUAD4_xx_xx_xx 0 t;
         t = build_urow ubase QUAD4_F0_xx_xx 0 t;
         t = build_urow ubase QUAD4_F4_xx_xx 0 t
     in t)"

text \<open>\<open>if (iswspace(cp)) table[i][j] = WASSPACE;\<close>\<close>

definition mark_space :: "(nat \<Rightarrow> bool) \<Rightarrow> nat \<Rightarrow> nat \<Rightarrow> nat \<Rightarrow> table \<Rightarrow> table" where
  "mark_space iswspace cp i j t = (if iswspace cp then set_cell t i j WASSPACE else t)"

definition mark_unicode_spaces :: "(nat \<Rightarrow> bool) \<Rightarrow> nat \<Rightarrow> table \<Rightarrow> table" where
  "mark_unicode_spaces iswspace ubase t =
    (let t = mark_space iswspace 0x0085 (ubase + DUO2_C2) 0x85 t;
         t = mark_space iswspace 0x00A0 (ubase + DUO2_C2) 0xA0 t;
         t = mark_space iswspace 0x1680 (ubase + TRI3_E1_9a) 0x80 t;
         t = fold (\<lambda>i t. mark_space iswspace i (ubase + TRI3_E2_80) (0x80 + (i AND 0x6F)) t)
               [0x2000..<0x200b + 1] t;
         t = mark_space iswspace 0x2028 (ubase + TRI3_E2_80) 0xA8 t;
         t = mark_space iswspace 0x2029 (ubase + TRI3_E2_80) 0xA9 t;
         t = mark_space iswspace 0x202F (ubase + TRI3_E2_80) 0xAF t;
         t = mark_space iswspace 0x205F (ubase + TRI3_E2_81) 0x9F t;
         t = mark_space iswspace 0x3000 (ubase + TRI3_E3_80) 0x80 t
     in t)"

definition mark_illegal_sequences :: "nat \<Rightarrow> table \<Rightarrow> table" where
  "mark_illegal_sequences ubase t =
    (let t = fold (\<lambda>i t. set_cell t (ubase + TRI2_E0) i (ubase + ILLEGAL)) [0x80..<0xA0] t;
         t = fold (\<lambda>i t. set_cell t (ubase + QUAD2_F0) i (ubase + ILLEGAL)) [0x80..<0x90] t;
         t = fold (\<lambda>i t. set_cell t (ubase + QUAD2_F4) i (ubase + ILLEGAL)) [0x90..<0xC0] t;
         t = fold (\<lambda>i t. set_cell t (ubase + TRI2_ED) i (ubase + ILLEGAL)) [0xA0..<0xC0] t
     in t)"

text \<open>
  \<open>build_unicode\<close>: \<open>build_basic\<close> fills the ILLEGAL row of the context (its parameter
  \<open>ubase\<close> is an \<open>unsigned char\<close>), then the five blocks run.
\<close>

definition build_unicode :: "(nat \<Rightarrow> bool) \<Rightarrow> (nat \<Rightarrow> bool) \<Rightarrow> nat \<Rightarrow> nat \<Rightarrow> table \<Rightarrow> table" where
  "build_unicode isspace iswspace default_state ubase t =
    (let t = t(ubase + ILLEGAL :=
               build_basic isspace (t (ubase + ILLEGAL)) default_state (ubase mod 256));
         t = two_byte ubase t;
         t = three_byte ubase t;
         t = four_byte ubase t;
         t = mark_unicode_spaces iswspace ubase t;
         t = mark_illegal_sequences ubase t
     in t)"

text \<open>One round of the loop of the ASCII branch of \<open>compile_utf8_statemachine\<close>.\<close>

definition ascii_round :: "(nat \<Rightarrow> bool) \<Rightarrow> nat \<Rightarrow> table \<Rightarrow> table" where
  "ascii_round isspace c t =
    (if c = 10 then
       (let t = set_cell t WASSPACE c NEWLINE;
            t = set_cell t NEWLINE c NEWLINE;
            t = set_cell t NEWWORD c NEWLINE;
            t = set_cell t WASWORD c NEWLINE
        in t)
     else if isspace c then
       (let t = set_cell t WASSPACE c WASSPACE;
            t = set_cell t NEWLINE c WASSPACE;
            t = set_cell t NEWWORD c WASSPACE;
            t = set_cell t WASWORD c WASSPACE
        in t)
     else
       (let t = set_cell t WASSPACE c NEWWORD;
            t = set_cell t NEWLINE c NEWWORD;
            t = set_cell t NEWWORD c WASWORD;
            t = set_cell t WASWORD c WASWORD
        in t))"

definition compile_utf8_statemachine ::
    "(nat \<Rightarrow> bool) \<Rightarrow> (nat \<Rightarrow> bool) \<Rightarrow> bool \<Rightarrow> table \<Rightarrow> table" where
  "compile_utf8_statemachine isspace iswspace is_multibyte t =
    (if is_multibyte then
       (let t = t(WASSPACE := build_WASSPACE isspace (t WASSPACE));
            t = t(NEWLINE := build_WASSPACE isspace (t NEWLINE));
            t = t(WASWORD := build_WASWORD isspace (t WASWORD));
            t = t(NEWWORD := build_WASWORD isspace (t NEWWORD));
            t = build_unicode isspace iswspace NEWWORD USPACE t;
            t = build_unicode isspace iswspace WASWORD UWORD t
        in t)
     else fold (ascii_round isspace) [0..<256] t)"

text \<open>
  The table is a global, so it holds zeros when \<open>main\<close> calls the builder. \<open>the_table\<close>
  is the table that the program then works with.
\<close>

definition zero_table :: table where
  "zero_table = (\<lambda>i j. 0)"

definition the_table :: "(nat \<Rightarrow> bool) \<Rightarrow> (nat \<Rightarrow> bool) \<Rightarrow> bool \<Rightarrow> table" where
  "the_table isspace iswspace is_multibyte =
     compile_utf8_statemachine isspace iswspace is_multibyte zero_table"

text \<open>
  For concrete runs: the classifiers of the "C" locale, where the white-space characters
  are space, form feed, new-line, carriage return, horizontal tab and vertical tab.
\<close>

definition c_isspace :: "nat \<Rightarrow> bool" where
  "c_isspace c = (c = 0x20 \<or> (0x09 \<le> c \<and> c \<le> 0x0D))"

definition c_iswspace :: "nat \<Rightarrow> bool" where
  "c_iswspace wc = (wc = 0x20 \<or> (0x09 \<le> wc \<and> wc \<le> 0x0D))"

section \<open>The chunk processor\<close>

text \<open>
  Each of the three functions returns the \<open>struct results\<close> of the chunk and the state
  that it leaves in \<open>*inout_state\<close>. A read outside \<open>table\<close> (or \<open>table_p\<close>) and an
  increment outside \<open>counts[STATE_MAX]\<close> have no defined result in C: the model returns
  \<open>None\<close> there. Only four cells of \<open>counts\<close> are set to zero; the others start with
  what the stack holds, the parameter \<open>uninit\<close>. Each function fills its results from
  its own \<open>counts\<close>: where these are \<open>unsigned\<close>, the sum for \<open>char_count\<close> is taken
  in 32 bits, and each value is widened to \<open>unsigned long\<close> when it is stored.
\<close>

definition init_counts :: "(nat \<Rightarrow> 'a::len word) \<Rightarrow> nat \<Rightarrow> 'a word" where
  "init_counts uninit = uninit(NEWLINE := 0, NEWWORD := 0, WASSPACE := 0, WASWORD := 0)"

text \<open>\<open>parse_chunk\<close>: the loop runs the index \<open>i\<close> from 0 to \<open>length\<close>.\<close>

function parse_chunk_loop ::
    "table \<Rightarrow> byte list \<Rightarrow> nat \<Rightarrow> nat \<Rightarrow> (nat \<Rightarrow> uint) \<Rightarrow> (nat \<times> (nat \<Rightarrow> uint)) option" where
  "parse_chunk_loop T buf i state counts =
     (if i < length buf then
        (if state < 256 then
           (let state' = T state (unat (buf ! i)) in
            if state' < STATE_MAX
            then parse_chunk_loop T buf (i + 1) state' (counts(state' := counts state' + 1))
            else None)
         else None)
      else Some (state, counts))"
  by pat_completeness auto
termination
  by (relation "measure (\<lambda>(T, buf, i, state, counts). length buf - i)") auto

declare parse_chunk_loop.simps [simp del]

definition parse_chunk :: "table \<Rightarrow> (nat \<Rightarrow> uint) \<Rightarrow> byte list \<Rightarrow> nat \<Rightarrow> (results \<times> nat) option" where
  "parse_chunk T uninit buf inout_state =
     (case parse_chunk_loop T buf 0 inout_state (init_counts uninit) of
        None \<Rightarrow> None
      | Some (state, counts) \<Rightarrow>
          Some (\<lparr>line_count = ucast (counts NEWLINE),
                 word_count = ucast (counts NEWWORD),
                 char_count = ucast (counts NEWLINE + counts WASSPACE + counts WASWORD
                                     + counts NEWWORD),
                 byte_count = of_nat (length buf)\<rparr>,
                state))"

text \<open>\<open>parse_chunk_p\<close>: the same table, the buffer walked by \<open>c = *buf++\<close>.\<close>

fun parse_chunk_p_loop ::
    "table \<Rightarrow> byte list \<Rightarrow> nat \<Rightarrow> (nat \<Rightarrow> uint) \<Rightarrow> (nat \<times> (nat \<Rightarrow> uint)) option" where
  "parse_chunk_p_loop T [] state counts = Some (state, counts)"
| "parse_chunk_p_loop T (c # rest) state counts =
     (if state < 256 then
        (let state' = T state (unat c) in
         if state' < STATE_MAX
         then parse_chunk_p_loop T rest state' (counts(state' := counts state' + 1))
         else None)
      else None)"

definition parse_chunk_p :: "table \<Rightarrow> (nat \<Rightarrow> uint) \<Rightarrow> byte list \<Rightarrow> nat \<Rightarrow> (results \<times> nat) option" where
  "parse_chunk_p T uninit buf inout_state =
     (case parse_chunk_p_loop T buf inout_state (init_counts uninit) of
        None \<Rightarrow> None
      | Some (state, counts) \<Rightarrow>
          Some (\<lparr>line_count = ucast (counts NEWLINE),
                 word_count = ucast (counts NEWWORD),
                 char_count = ucast (counts NEWLINE + counts WASSPACE + counts WASWORD
                                     + counts NEWWORD),
                 byte_count = of_nat (length buf)\<rparr>,
                state))"

subsection \<open>The table of pointers\<close>

text \<open>
  \<open>table_p\<close> holds addresses. \<open>base\<close> is the address of \<open>table_p\<close> and \<open>psz\<close> is
  \<open>sizeof(void*)\<close>; the cell \<open>table_p[i][j]\<close> lies at \<open>base + (i * 256 + j) * psz\<close>.
\<close>

type_synonym ptable = "nat \<Rightarrow> nat \<Rightarrow> nat"

definition PSTATE :: "nat \<Rightarrow> nat \<Rightarrow> nat \<Rightarrow> nat" where
  "PSTATE base psz p = (p - base) div (256 * psz)"

text \<open>
  \<open>compile_pointers\<close>: the two nested loops; the \<open>assert\<close> of the inner loop stops the
  program when it fails (\<open>None\<close>).
\<close>

fun compile_pointers_row ::
    "table \<Rightarrow> nat \<Rightarrow> nat \<Rightarrow> nat \<Rightarrow> nat list \<Rightarrow> ptable \<Rightarrow> ptable option" where
  "compile_pointers_row T base psz i [] tp = Some tp"
| "compile_pointers_row T base psz i (j # js) tp =
     (let tp = tp(i := (tp i)(j := base + T i j * 256 * psz)) in
      if PSTATE base psz (tp i j) = T i j
      then compile_pointers_row T base psz i js tp
      else None)"

fun compile_pointers_rows ::
    "table \<Rightarrow> nat \<Rightarrow> nat \<Rightarrow> nat list \<Rightarrow> ptable \<Rightarrow> ptable option" where
  "compile_pointers_rows T base psz [] tp = Some tp"
| "compile_pointers_rows T base psz (i # is) tp =
     (case compile_pointers_row T base psz i [0..<256] tp of
        None \<Rightarrow> None
      | Some tp \<Rightarrow> compile_pointers_rows T base psz is tp)"

definition compile_pointers :: "table \<Rightarrow> nat \<Rightarrow> nat \<Rightarrow> ptable \<Rightarrow> ptable option" where
  "compile_pointers T base psz tp = compile_pointers_rows T base psz [0..<STATE_MAX] tp"

text \<open>
  Reading the pointer at address \<open>a\<close>: defined when \<open>a\<close> is the address of a cell of
  \<open>table_p\<close>.
\<close>

definition load_ptr :: "ptable \<Rightarrow> nat \<Rightarrow> nat \<Rightarrow> nat \<Rightarrow> nat option" where
  "load_ptr tp base psz a =
     (if base \<le> a \<and> a < base + 256 * 256 * psz \<and> (a - base) mod psz = 0
      then Some (tp ((a - base) div psz div 256) ((a - base) div psz mod 256))
      else None)"

text \<open>
  \<open>parse_chunk_pp\<close>: the state is the address of a row of \<open>table_p\<close> (the second
  assignment to \<open>state\<close>; the initialiser before it is overwritten unread);
  \<open>state[c]\<close> reads the cell \<open>c\<close> pointers further, and \<open>PSTATE\<close> gives the index
  into \<open>counts\<close>, which is an array of \<open>unsigned long\<close> here. A pointer below
  \<open>table_p\<close> has no index.
\<close>

fun parse_chunk_pp_loop ::
    "ptable \<Rightarrow> nat \<Rightarrow> nat \<Rightarrow> byte list \<Rightarrow> nat \<Rightarrow> (nat \<Rightarrow> ulong) \<Rightarrow>
       (nat \<times> (nat \<Rightarrow> ulong)) option" where
  "parse_chunk_pp_loop tp base psz [] state counts = Some (state, counts)"
| "parse_chunk_pp_loop tp base psz (c # rest) state counts =
     (case load_ptr tp base psz (state + unat c * psz) of
        None \<Rightarrow> None
      | Some state' \<Rightarrow>
          if base \<le> state' \<and> PSTATE base psz state' < STATE_MAX
          then parse_chunk_pp_loop tp base psz rest state'
                 (counts(PSTATE base psz state' := counts (PSTATE base psz state') + 1))
          else None)"

definition parse_chunk_pp ::
    "ptable \<Rightarrow> nat \<Rightarrow> nat \<Rightarrow> (nat \<Rightarrow> ulong) \<Rightarrow> byte list \<Rightarrow> nat \<Rightarrow> (results \<times> nat) option" where
  "parse_chunk_pp tp base psz uninit buf inout_state =
     (case parse_chunk_pp_loop tp base psz buf (base + inout_state * 256 * psz)
             (init_counts uninit) of
        None \<Rightarrow> None
      | Some (state, counts) \<Rightarrow>
          Some (\<lparr>line_count = counts NEWLINE,
                 word_count = counts NEWWORD,
                 char_count = counts NEWLINE + counts WASSPACE + counts WASWORD + counts NEWWORD,
                 byte_count = of_nat (length buf)\<rparr>,
                PSTATE base psz state))"

text \<open>
  \<open>parse_file\<close> sums the results of the chunks field by field, in \<open>unsigned long\<close>.
\<close>

definition sum_results :: "results \<Rightarrow> results \<Rightarrow> results" where
  "sum_results r x =
     \<lparr>line_count = line_count r + line_count x,
      word_count = word_count r + word_count x,
      char_count = char_count r + char_count x,
      byte_count = byte_count r + byte_count x\<rparr>"

definition zero_counts :: "nat \<Rightarrow> 'a::len word" where
  "zero_counts = (\<lambda>s. 0)"

section \<open>The automaton that the table describes\<close>

text \<open>
  The states that a run visits: the state after the first byte, after the second, and so
  on. \<open>run\<close> is the state after the last byte.
\<close>

fun trace :: "table \<Rightarrow> nat \<Rightarrow> byte list \<Rightarrow> nat list" where
  "trace T s [] = []"
| "trace T s (c # cs) = T s (unat c) # trace T (T s (unat c)) cs"

definition run :: "table \<Rightarrow> nat \<Rightarrow> byte list \<Rightarrow> nat" where
  "run T s buf = last (s # trace T s buf)"

definition closed :: "table \<Rightarrow> bool" where
  "closed T = (\<forall>s c. s < STATE_MAX \<longrightarrow> c < 256 \<longrightarrow> T s c < STATE_MAX)"


section \<open>Notions used by the statements\<close>

text \<open>Every cell of the table is the index of a state.\<close>

definition bounded_table :: "table \<Rightarrow> bool" where
  "bounded_table t = (\<forall>r c. t r c < STATE_MAX)"

text \<open>The cell that the ASCII branch stores for the state \<open>r\<close> and the byte \<open>c\<close>.\<close>

definition ascii_cell :: "(nat \<Rightarrow> bool) \<Rightarrow> nat \<Rightarrow> nat \<Rightarrow> nat" where
  "ascii_cell isspace r c =
     (if c = 10 then NEWLINE else if isspace c then WASSPACE
      else if r = WASSPACE \<or> r = NEWLINE then NEWWORD else WASWORD)"


text \<open>
  The two contexts that \<open>compile_utf8_statemachine\<close> builds in the multibyte mode: the
  base \<open>ubase\<close> of the 31 states of \<open>build_unicode\<close>, the state \<open>default_state\<close> handed
  to it, and a counted state \<open>b\<close> whose row \<open>build_basic\<close> fills for this base
  (\<open>build_WASSPACE\<close> for WASSPACE and NEWLINE, \<open>build_WASWORD\<close> for WASWORD and NEWWORD).
\<close>

definition utf8_context :: "nat \<Rightarrow> nat \<Rightarrow> nat \<Rightarrow> bool" where
  "utf8_context ubase default_state b =
     (ubase = USPACE \<and> default_state = NEWWORD \<and> (b = WASSPACE \<or> b = NEWLINE) \<or>
      ubase = UWORD \<and> default_state = WASWORD \<and> (b = WASWORD \<or> b = NEWWORD))"

text \<open>
  The states that wait for the last continuation byte of a sequence: those that
  \<open>build_unicode\<close> builds by \<open>build_urow\<close> with \<open>next = 0\<close>.
\<close>

definition last_byte_state :: "nat \<Rightarrow> bool" where
  "last_byte_state i =
     (i \<in> set [DUO2_xx, DUO2_C2, TRI3_E0_xx, TRI3_E1_xx, TRI3_E1_9a, TRI3_E2_80, TRI3_E2_81,
               TRI3_E2_xx, TRI3_E3_80, TRI3_E3_81, TRI3_E3_xx, TRI3_Ed_xx, TRI3_Ee_xx,
               TRI3_xx_xx, QUAD4_xx_xx_xx, QUAD4_F0_xx_xx, QUAD4_F4_xx_xx])"




text \<open>
  A text of words: the first word, then each further word behind its separator byte.
\<close>

fun sentence :: "byte list \<Rightarrow> (byte \<times> byte list) list \<Rightarrow> byte list" where
  "sentence w [] = w"
| "sentence w ((s, w') # rest) = w @ s # sentence w' rest"


section \<open>Reading the table\<close>

text \<open>The loops run over intervals of numerals; they are not unrolled.\<close>

declare upt_rec_numeral [simp del]

lemmas utf8_enum =
  DUO2_xx_def DUO2_C2_def TRI2_E0_def TRI2_E1_def TRI2_E2_def TRI2_E3_def TRI2_ED_def
  TRI2_EE_def TRI2_xx_def TRI3_E0_xx_def TRI3_E1_xx_def TRI3_E1_9a_def TRI3_E2_80_def
  TRI3_E2_81_def TRI3_E2_xx_def TRI3_E3_80_def TRI3_E3_81_def TRI3_E3_xx_def
  TRI3_Ed_xx_def TRI3_Ee_xx_def TRI3_xx_xx_def QUAD2_xx_def QUAD2_F0_def QUAD2_F4_def
  QUAD3_xx_xx_def QUAD3_F0_xx_def QUAD3_F4_xx_def QUAD4_xx_xx_xx_def QUAD4_F0_xx_xx_def
  QUAD4_F4_xx_xx_def ILLEGAL_def

lemmas state_enum =
  WASSPACE_def NEWLINE_def NEWWORD_def WASWORD_def USPACE_def UWORD_def STATE_MAX_def

lemma all_less_numeral:
  "(\<forall>c<numeral k. P (c::nat)) = ((\<forall>c<pred_numeral k. P c) \<and> P (pred_numeral k))"
  by (metis less_Suc_eq numeral_eq_Suc)

lemma fold_upd_upt:
  "fold (\<lambda>c r. r(c := f c)) [a..<b] row x = (if a \<le> x \<and> x < b then f x else row x)"
  by (induction b) auto

lemma build_basic_apply:
  "build_basic isspace row d ub c = (if c < 256 then basic_cell isspace d ub c else row c)"
  by (simp add: build_basic_def fold_upd_upt)

lemma set_cell_apply:
  "set_cell t i j v r c = (if r = i \<and> c = j then v mod 256 else t r c)"
  by (simp add: set_cell_def)

lemma fold_set_cell_apply:
  "fold (\<lambda>i t. set_cell t r i v) [a..<b] t r' c =
     (if r' = r \<and> a \<le> c \<and> c < b then v mod 256 else t r' c)"
  by (induction b) (auto simp: set_cell_apply)

lemma build_urow_apply:
  "build_urow ub id' nx t r c =
     (if r = ub + id' then
        (if 0x80 \<le> c \<and> c < 0xC0 then (if nx = 0 then t (ub + ILLEGAL) 0 else ub + nx) mod 256
         else if 0xC0 \<le> c \<and> c < 0x100 then (ub + ILLEGAL) mod 256
         else if c < 256 then t (ub + ILLEGAL) c
         else t (ub + id') c)
      else t r c)"
  by (simp add: build_urow_def Let_def fold_set_cell_apply)

lemma mark_space_apply:
  "mark_space iswspace cp i j t r c =
     (if iswspace cp \<and> r = i \<and> c = j then 0 else t r c)"
  by (simp add: mark_space_def set_cell_apply WASSPACE_def)

lemma fold_mark_space_apply:
  "fold (\<lambda>i t. mark_space iswspace i r (g i) t) xs t r' c =
     (if r' = r \<and> (\<exists>i\<in>set xs. iswspace i \<and> g i = c) then 0 else t r' c)"
  by (induction xs arbitrary: t) (auto simp: mark_space_apply)

lemma bits_80: "c < 256 \<Longrightarrow> (c AND 0x80 = 0) = ((c::nat) < 128)"
proof -
  have "\<forall>c<256. (c AND 0x80 = 0) = ((c::nat) < 128)"
    by (simp add: all_less_numeral)
  then show "c < 256 \<Longrightarrow> (c AND 0x80 = 0) = ((c::nat) < 128)" by blast
qed

lemma bits_80_pos: "c < 256 \<Longrightarrow> (0 < c AND 0x80) = (128 \<le> (c::nat))"
  using bits_80 [of c] by auto

lemma bits_E0: "c < 256 \<Longrightarrow> (c AND 0xE0 = 0xC0) = (192 \<le> (c::nat) \<and> c < 224)"
proof -
  have "\<forall>c<256. (c AND 0xE0 = 0xC0) = (192 \<le> (c::nat) \<and> c < 224)"
    by (simp add: all_less_numeral)
  then show "c < 256 \<Longrightarrow> (c AND 0xE0 = 0xC0) = (192 \<le> (c::nat) \<and> c < 224)" by blast
qed

lemma bits_F0: "c < 256 \<Longrightarrow> (c AND 0xF0 = 0xE0) = (224 \<le> (c::nat) \<and> c < 240)"
proof -
  have "\<forall>c<256. (c AND 0xF0 = 0xE0) = (224 \<le> (c::nat) \<and> c < 240)"
    by (simp add: all_less_numeral)
  then show "c < 256 \<Longrightarrow> (c AND 0xF0 = 0xE0) = (224 \<le> (c::nat) \<and> c < 240)" by blast
qed

lemma bits_F8: "c < 256 \<Longrightarrow> (c AND 0xF8 = 0xF0) = (240 \<le> (c::nat) \<and> c < 248)"
proof -
  have "\<forall>c<256. (c AND 0xF8 = 0xF0) = (240 \<le> (c::nat) \<and> c < 248)"
    by (simp add: all_less_numeral)
  then show "c < 256 \<Longrightarrow> (c AND 0xF8 = 0xF0) = (240 \<le> (c::nat) \<and> c < 248)" by blast
qed

text \<open>The cells of \<open>build_basic\<close>, by the range of the byte.\<close>
lemma basic_cell_ascii:
  "c < 0x80 \<Longrightarrow> basic_cell isspace d ub c =
     (if c = 10 then NEWLINE else if isspace c then WASSPACE else d)"
  by (simp add: basic_cell_def bits_80 bits_80_pos)

lemma basic_cell_cont:
  "0x80 \<le> c \<Longrightarrow> c < 0xC0 \<Longrightarrow> basic_cell isspace d ub c = (ub + ILLEGAL) mod 256"
  by (simp add: basic_cell_def bits_80 bits_80_pos bits_E0 bits_F0 bits_F8)


lemma space_block_column:
  assumes "0x2000 \<le> i" "i < 0x200c"
  shows "(i::nat) AND 0x6F = i - 0x2000"
proof -
  have "\<forall>k<12. (0x2000 + k) AND 0x6F = (k::nat)"
    by (simp add: all_less_numeral)
  moreover have "i - 0x2000 < 12" "i = 0x2000 + (i - 0x2000)"
    using assms by simp_all
  ultimately show ?thesis by metis
qed

lemma space_block_apply:
  "fold (\<lambda>i t. mark_space iswspace i r (0x80 + (i AND 0x6F)) t) [0x2000..<0x200c] t r' c =
     (if r' = r \<and> 0x80 \<le> c \<and> c < 0x8C \<and> iswspace (0x2000 + (c - 0x80)) then 0 else t r' c)"
proof -
  have "(\<exists>i\<in>set [0x2000..<0x200c]. iswspace i \<and> 0x80 + (i AND 0x6F) = c) =
        (0x80 \<le> c \<and> c < 0x8C \<and> iswspace (0x2000 + (c - 0x80)))"
    (is "?L = ?R")
  proof
    assume ?L
    then obtain i where i: "0x2000 \<le> i" "i < 0x200c" "iswspace i" "0x80 + (i AND 0x6F) = c"
      by auto
    have c: "c = 0x80 + (i - 0x2000)"
      using i(4) space_block_column [OF i(1,2)] by simp
    have "0x2000 + (c - 0x80) = i"
      using c i(1) by simp
    then show ?R using c i by simp
  next
    assume r: ?R
    let ?i = "0x2000 + (c - 0x80)"
    have "0x2000 \<le> ?i" "?i < 0x200c" using r by simp_all
    then have "?i AND 0x6F = ?i - 0x2000" by (rule space_block_column)
    then have "0x80 + (?i AND 0x6F) = c" using r by simp
    moreover have "?i \<in> set [0x2000..<0x200c]" using r by simp
    ultimately show ?L using r by blast
  qed
  then show ?thesis
    by (simp only: fold_mark_space_apply)
qed


lemmas cell_simps = build_urow_apply set_cell_apply mark_space_apply fold_set_cell_apply
  space_block_apply build_basic_apply

lemmas block_defs = build_unicode_def two_byte_def three_byte_def four_byte_def
  mark_unicode_spaces_def mark_illegal_sequences_def Let_def

lemma build_unicode_frame_below:
  "r < ub \<Longrightarrow> build_unicode isspace iswspace d ub t r c = t r c"
  by (simp add: block_defs cell_simps utf8_enum)

lemma build_unicode_frame_above:
  "ub + ILLEGAL < r \<Longrightarrow> build_unicode isspace iswspace d ub t r c = t r c"
  by (simp add: block_defs cell_simps utf8_enum)

lemma build_unicode_ILLEGAL_row:
  "c < 256 \<Longrightarrow> build_unicode isspace iswspace d ub t (ub + ILLEGAL) c = basic_cell isspace d (ub mod 256) c"
  by (simp add: block_defs cell_simps utf8_enum)


lemma STATE_MAX_eq: "STATE_MAX = 66"
  by (simp add: state_enum utf8_enum)

lemma bounded_set_cell:
  "bounded_table t \<Longrightarrow> v < STATE_MAX \<Longrightarrow> bounded_table (set_cell t i j v)"
  by (simp add: bounded_table_def set_cell_apply STATE_MAX_eq)

lemma bounded_fold_set_cell:
  "bounded_table t \<Longrightarrow> v < STATE_MAX \<Longrightarrow>
   bounded_table (fold (\<lambda>i t. set_cell t r i v) [a..<b] t)"
  by (simp add: bounded_table_def fold_set_cell_apply STATE_MAX_eq)

lemma bounded_mark_space:
  "bounded_table t \<Longrightarrow> bounded_table (mark_space iswspace cp i j t)"
  by (simp add: bounded_table_def mark_space_apply STATE_MAX_eq)

lemma bounded_fold_mark_space:
  "bounded_table t \<Longrightarrow>
   bounded_table (fold (\<lambda>i t. mark_space iswspace i r (g i) t) xs t)"
  by (simp add: bounded_table_def fold_mark_space_apply STATE_MAX_eq)

lemma bounded_build_urow:
  "bounded_table t \<Longrightarrow> ub + ILLEGAL < STATE_MAX \<Longrightarrow> nx \<le> ILLEGAL \<Longrightarrow>
   bounded_table (build_urow ub id' nx t)"
  by (auto simp add: bounded_table_def build_urow_apply STATE_MAX_eq ILLEGAL_def
      intro: le_less_trans [OF mod_less_eq_dividend])

lemma basic_cell_bounded:
  "d < STATE_MAX \<Longrightarrow> ub + ILLEGAL < STATE_MAX \<Longrightarrow> basic_cell isspace d ub c < STATE_MAX"
  by (simp add: basic_cell_def STATE_MAX_eq utf8_enum state_enum)

lemma bounded_build_basic_row:
  "bounded_table t \<Longrightarrow> d < STATE_MAX \<Longrightarrow> ub + ILLEGAL < STATE_MAX \<Longrightarrow>
   bounded_table (t(r := build_basic isspace (t r) d ub))"
  by (simp add: bounded_table_def build_basic_apply basic_cell_bounded)

lemmas bounded_intros = bounded_set_cell bounded_fold_set_cell bounded_mark_space
  bounded_fold_mark_space bounded_build_urow bounded_build_basic_row

lemma bounded_build_unicode:
  assumes "bounded_table t" "d < STATE_MAX" "ub + ILLEGAL < STATE_MAX"
  shows "bounded_table (build_unicode isspace iswspace d ub t)"
proof -
  have ub: "ub mod 256 = ub"
    using assms(3) by (simp add: STATE_MAX_eq)
  have 0: "bounded_table (t(ub + ILLEGAL := build_basic isspace (t (ub + ILLEGAL)) d (ub mod 256)))"
    using assms by (simp add: ub bounded_build_basic_row)
  have 1: "bounded_table u \<Longrightarrow> bounded_table (two_byte ub u)" for u
    using assms(3) by (simp add: two_byte_def Let_def bounded_build_urow utf8_enum)
  have 2: "bounded_table u \<Longrightarrow> bounded_table (three_byte ub u)" for u
    using assms(3)
    by (simp add: three_byte_def Let_def bounded_build_urow bounded_set_cell utf8_enum STATE_MAX_eq)
  have 3: "bounded_table u \<Longrightarrow> bounded_table (four_byte ub u)" for u
    using assms(3) by (simp add: four_byte_def Let_def bounded_build_urow utf8_enum)
  have 4: "bounded_table u \<Longrightarrow> bounded_table (mark_unicode_spaces iswspace ub u)" for u
    by (simp add: mark_unicode_spaces_def Let_def bounded_mark_space bounded_fold_mark_space
       )
  have 5: "bounded_table u \<Longrightarrow> bounded_table (mark_illegal_sequences ub u)" for u
    using assms(3)
    by (simp add: mark_illegal_sequences_def Let_def bounded_fold_set_cell)
  show ?thesis
    unfolding build_unicode_def Let_def by (intro 5 4 3 2 1 0)
qed

lemma bounded_ascii_round: "bounded_table t \<Longrightarrow> bounded_table (ascii_round isspace c t)"
  by (simp add: ascii_round_def Let_def bounded_set_cell STATE_MAX_eq state_enum)

lemma bounded_fold_ascii_round:
  "bounded_table t \<Longrightarrow> bounded_table (fold (ascii_round isspace) xs t)"
  by (induction xs arbitrary: t) (simp_all add: bounded_ascii_round)

lemma bounded_zero_table: "bounded_table zero_table"
  by (simp add: bounded_table_def zero_table_def STATE_MAX_eq)

lemma bounded_compile:
  assumes "bounded_table t"
  shows "bounded_table (compile_utf8_statemachine isspace iswspace mb t)"
proof (cases mb)
  case True
  have b: "bounded_table u \<Longrightarrow> bounded_table (u(r := build_WASSPACE isspace (u r)))"
          "bounded_table u \<Longrightarrow> bounded_table (u(r := build_WASWORD isspace (u r)))" for u r
    by (simp_all add: build_WASSPACE_def build_WASWORD_def bounded_build_basic_row
        STATE_MAX_eq state_enum utf8_enum)
  have u: "bounded_table u \<Longrightarrow> bounded_table (build_unicode isspace iswspace NEWWORD USPACE u)"
          "bounded_table u \<Longrightarrow> bounded_table (build_unicode isspace iswspace WASWORD UWORD u)" for u
    by (simp_all add: bounded_build_unicode STATE_MAX_eq state_enum utf8_enum)
  show ?thesis
    using True unfolding compile_utf8_statemachine_def Let_def
    by (simp only: if_True) (intro u b assms)
next
  case False
  then show ?thesis
    using assms by (simp add: compile_utf8_statemachine_def bounded_fold_ascii_round
       )
qed

lemma the_table_bounded: "the_table isspace iswspace mb r c < STATE_MAX"
  using bounded_compile [OF bounded_zero_table, of isspace iswspace mb]
  by (simp add: the_table_def bounded_table_def)

lemma the_table_closed: "closed (the_table isspace iswspace mb)"
  by (simp add: closed_def the_table_bounded)

subsection \<open>The table of the ASCII mode\<close>

lemma ascii_round_apply:
  "ascii_round isspace c t r c' =
     (if c' = c \<and> r < 4 then ascii_cell isspace r c else t r c')"
  by (auto simp add: ascii_round_def Let_def set_cell_apply state_enum ascii_cell_def)

lemma fold_ascii_round_apply:
  "fold (ascii_round isspace) [a..<b] t r c =
     (if a \<le> c \<and> c < b \<and> r < 4 then ascii_cell isspace r c else t r c)"
  by (induction b) (auto simp: ascii_round_apply)

lemma the_table_ascii:
  "r < 4 \<Longrightarrow> c < 256 \<Longrightarrow> the_table isspace iswspace False r c = ascii_cell isspace r c"
  by (simp add: the_table_def compile_utf8_statemachine_def fold_ascii_round_apply
     )

subsection \<open>The table of the multibyte mode\<close>

lemma the_table_mb_space_rows:
  "r = WASSPACE \<or> r = NEWLINE \<Longrightarrow> c < 256 \<Longrightarrow>
   the_table isspace iswspace True r c = basic_cell isspace NEWWORD USPACE c"
  by (auto simp add: the_table_def compile_utf8_statemachine_def Let_def
      build_unicode_frame_below build_WASSPACE_def build_WASWORD_def build_basic_apply state_enum utf8_enum)

lemma the_table_mb_word_rows:
  "r = WASWORD \<or> r = NEWWORD \<Longrightarrow> c < 256 \<Longrightarrow>
   the_table isspace iswspace True r c = basic_cell isspace WASWORD UWORD c"
  by (auto simp add: the_table_def compile_utf8_statemachine_def Let_def
      build_unicode_frame_below build_WASSPACE_def build_WASWORD_def build_basic_apply state_enum utf8_enum)

lemma the_table_mb_USPACE:
  "i \<le> ILLEGAL \<Longrightarrow> the_table isspace iswspace True (USPACE + i) c =
     build_unicode isspace iswspace NEWWORD USPACE
       (zero_table(WASSPACE := build_WASSPACE isspace (zero_table WASSPACE),
                   NEWLINE := build_WASSPACE isspace (zero_table NEWLINE),
                   WASWORD := build_WASWORD isspace (zero_table WASWORD),
                   NEWWORD := build_WASWORD isspace (zero_table NEWWORD))) (USPACE + i) c"
  by (simp add: the_table_def compile_utf8_statemachine_def Let_def
      build_unicode_frame_below state_enum utf8_enum)

subsection \<open>The rows of a context\<close>

text \<open>
  The rows that \<open>build_unicode\<close> writes for the base \<open>ub\<close> do not depend on the table
  it starts from.
\<close>

lemma urow_lead_bytes:
  assumes "i < ILLEGAL" "0xC0 \<le> c" "c < 0x100"
  shows "build_unicode isspace iswspace d ub t (ub + i) c = (ub + ILLEGAL) mod 256"
proof -
  have "\<forall>i<30. build_unicode isspace iswspace d ub t (ub + i) c = (ub + ILLEGAL) mod 256"
    using assms(2,3)
    by (simp add: all_less_numeral block_defs cell_simps utf8_enum)
  then show ?thesis using assms(1) by (simp add: ILLEGAL_def)
qed

lemma urow_ascii:
  assumes "i < ILLEGAL" "c < 0x80"
  shows "build_unicode isspace iswspace d ub t (ub + i) c = basic_cell isspace d (ub mod 256) c"
proof -
  have "\<forall>i<30. build_unicode isspace iswspace d ub t (ub + i) c = basic_cell isspace d (ub mod 256) c"
    using assms(2)
    by (simp add: all_less_numeral block_defs cell_simps utf8_enum)
  then show ?thesis using assms(1) by (simp add: ILLEGAL_def)
qed

lemma urow_final:
  assumes "i < 2 \<or> (9 \<le> i \<and> i \<le> 20) \<or> (27 \<le> i \<and> i \<le> 29)" "0x80 \<le> c" "c < 0xC0"
  shows "build_unicode isspace iswspace d ub t (ub + i) c = 0 \<or>
         build_unicode isspace iswspace d ub t (ub + i) c = basic_cell isspace d (ub mod 256) 0 mod 256"
proof -
  have "\<forall>i<30. (i < 2 \<or> (9 \<le> i \<and> i \<le> 20) \<or> (27 \<le> i \<and> i \<le> 29)) \<longrightarrow>
         (build_unicode isspace iswspace d ub t (ub + i) c = 0 \<or>
         build_unicode isspace iswspace d ub t (ub + i) c = basic_cell isspace d (ub mod 256) 0 mod 256)"
    using assms(2,3)
    by (simp add: all_less_numeral block_defs cell_simps utf8_enum)
  moreover have "i < 30" using assms(1) by auto
  ultimately show ?thesis using assms(1) by blast
qed

lemma row_TRI2_E0:
  "0x80 \<le> c \<Longrightarrow> c < 0xC0 \<Longrightarrow>
   build_unicode isspace iswspace d ub t (ub + TRI2_E0) c =
     (if 0xA0 \<le> c then (ub + TRI3_E0_xx) mod 256 else (ub + ILLEGAL) mod 256)"
  by (simp add: block_defs cell_simps utf8_enum)

lemma row_TRI2_ED:
  "0x80 \<le> c \<Longrightarrow> c < 0xC0 \<Longrightarrow>
   build_unicode isspace iswspace d ub t (ub + TRI2_ED) c =
     (if c < 0xA0 then (ub + TRI3_Ed_xx) mod 256 else (ub + ILLEGAL) mod 256)"
  by (simp add: block_defs cell_simps utf8_enum)

lemma row_QUAD2_F0:
  "0x80 \<le> c \<Longrightarrow> c < 0xC0 \<Longrightarrow>
   build_unicode isspace iswspace d ub t (ub + QUAD2_F0) c =
     (if 0x90 \<le> c then (ub + QUAD3_F0_xx) mod 256 else (ub + ILLEGAL) mod 256)"
  by (simp add: block_defs cell_simps utf8_enum)

lemma row_QUAD2_F4:
  "0x80 \<le> c \<Longrightarrow> c < 0xC0 \<Longrightarrow>
   build_unicode isspace iswspace d ub t (ub + QUAD2_F4) c =
     (if c < 0x90 then (ub + QUAD3_F4_xx) mod 256 else (ub + ILLEGAL) mod 256)"
  by (simp add: block_defs cell_simps utf8_enum)

lemma row_TRI2_E2:
  "0x82 \<le> c \<Longrightarrow> c < 0xC0 \<Longrightarrow>
   build_unicode isspace iswspace d ub t (ub + TRI2_E2) c = (ub + TRI3_E2_xx) mod 256"
  by (simp add: block_defs cell_simps utf8_enum)

lemma row_TRI3_E2_xx:
  "0x80 \<le> c \<Longrightarrow> c < 0xC0 \<Longrightarrow>
   build_unicode isspace iswspace d ub t (ub + TRI3_E2_xx) c = basic_cell isspace d (ub mod 256) 0 mod 256"
  by (simp add: block_defs cell_simps utf8_enum)

lemma the_table_mb_context:
  assumes "ub = USPACE \<and> d = NEWWORD \<or> ub = UWORD \<and> d = WASWORD" "i \<le> ILLEGAL"
  shows "\<exists>t. \<forall>c. the_table isspace iswspace True (ub + i) c =
               build_unicode isspace iswspace d ub t (ub + i) c"
  using assms
  by (auto simp add: the_table_def compile_utf8_statemachine_def Let_def
      build_unicode_frame_below state_enum utf8_enum)

lemma the_table_ctx_cell:
  assumes "ub = USPACE \<and> d = NEWWORD \<or> ub = UWORD \<and> d = WASWORD" "i \<le> ILLEGAL"
    and "\<And>t. build_unicode isspace iswspace d ub t (ub + i) c = v"
  shows "the_table isspace iswspace True (ub + i) c = v"
  using the_table_mb_context [OF assms(1,2), of isspace iswspace] assms(3) by auto

lemma ctx_small: "ub = USPACE \<and> d = NEWWORD \<or> ub = UWORD \<and> d = WASWORD \<Longrightarrow> ub mod 256 = ub \<and> ub + ILLEGAL < 256 \<and> d < 4"
  by (auto simp: state_enum utf8_enum)


lemma utf8_context_ctx:
  "utf8_context ub d b \<Longrightarrow> ub = USPACE \<and> d = NEWWORD \<or> ub = UWORD \<and> d = WASWORD"
  by (auto simp: utf8_context_def)

lemma context_base_row:
  assumes "utf8_context ub d b" "c < 256"
  shows "the_table isspace iswspace True b c = basic_cell isspace d ub c"
  using assms the_table_mb_space_rows [of b c isspace iswspace]
    the_table_mb_word_rows [of b c isspace iswspace]
  by (auto simp: utf8_context_def)

lemma context_ILLEGAL_row:
  assumes "utf8_context ub d b" "c < 256"
  shows "the_table isspace iswspace True (ub + ILLEGAL) c = basic_cell isspace d ub c"
proof (rule the_table_ctx_cell [OF utf8_context_ctx [OF assms(1)]])
  show "ILLEGAL \<le> ILLEGAL" by simp
  have "ub mod 256 = ub" using assms(1) by (auto simp: utf8_context_def state_enum utf8_enum)
  then show "build_unicode isspace iswspace d ub t (ub + ILLEGAL) c = basic_cell isspace d ub c" for t
    using build_unicode_ILLEGAL_row [OF assms(2), of isspace iswspace d ub t] by simp
qed

lemma basic_cell_illegal_lead:
  "c = 0xC0 \<or> c = 0xC1 \<or> (0xF5 \<le> c \<and> c \<le> 0xFF) \<Longrightarrow>
   basic_cell isspace d ub c = (ub + ILLEGAL) mod 256"
  by (auto simp add: basic_cell_def bits_80 bits_80_pos bits_E0 bits_F0 bits_F8)

lemma context_mod:
  assumes "utf8_context ub d b" "i \<le> ILLEGAL"
  shows "(ub + i) mod 256 = ub + i" "ub mod 256 = ub"
  using assms by (auto simp: utf8_context_def state_enum utf8_enum)

lemma context_illegal_lead:
  assumes ctx: "utf8_context ub d b" and c: "c = 0xC0 \<or> c = 0xC1 \<or> (0xF5 \<le> c \<and> c \<le> 0xFF)"
  shows "the_table isspace iswspace True b c = ub + ILLEGAL"
    and "i \<le> ILLEGAL \<Longrightarrow> the_table isspace iswspace True (ub + i) c = ub + ILLEGAL"
proof -
  have c256: "c < 256" "0xC0 \<le> c" using c by auto
  have m: "(ub + ILLEGAL) mod 256 = ub + ILLEGAL"
    using context_mod [OF ctx, of ILLEGAL] by simp
  show "the_table isspace iswspace True b c = ub + ILLEGAL"
    using context_base_row [OF ctx c256(1)] basic_cell_illegal_lead [OF c] m by simp
  show "the_table isspace iswspace True (ub + i) c = ub + ILLEGAL" if i: "i \<le> ILLEGAL"
  proof (cases "i = ILLEGAL")
    case True
    then show ?thesis
      using context_ILLEGAL_row [OF ctx c256(1)] basic_cell_illegal_lead [OF c] m by simp
  next
    case False
    then have "i < ILLEGAL" using i by simp
    then show ?thesis
      using the_table_ctx_cell [OF utf8_context_ctx [OF ctx] i, of isspace iswspace c "ub + ILLEGAL"]
        urow_lead_bytes [of i c isspace iswspace d ub] c256 m by simp
  qed
qed

lemma context_lead_states:
  assumes ctx: "utf8_context ub d b"
  shows "the_table isspace iswspace True b 0xE0 = ub + TRI2_E0"
    "the_table isspace iswspace True b 0xED = ub + TRI2_ED"
    "the_table isspace iswspace True b 0xF0 = ub + QUAD2_F0"
    "the_table isspace iswspace True b 0xF4 = ub + QUAD2_F4"
  using context_base_row [OF ctx, of _ isspace iswspace] ctx
  by (auto simp add: basic_cell_def utf8_context_def state_enum utf8_enum)

lemma context_restricted_rows:
  assumes ctx: "utf8_context ub d b" and c: "0x80 \<le> c" "c \<le> 0xBF"
  shows "the_table isspace iswspace True (ub + TRI2_E0) c =
           (if 0xA0 \<le> c then ub + TRI3_E0_xx else ub + ILLEGAL)"
    "the_table isspace iswspace True (ub + TRI2_ED) c =
           (if c \<le> 0x9F then ub + TRI3_Ed_xx else ub + ILLEGAL)"
    "the_table isspace iswspace True (ub + QUAD2_F0) c =
           (if 0x90 \<le> c then ub + QUAD3_F0_xx else ub + ILLEGAL)"
    "the_table isspace iswspace True (ub + QUAD2_F4) c =
           (if c \<le> 0x8F then ub + QUAD3_F4_xx else ub + ILLEGAL)"
proof -
  have c': "0x80 \<le> c" "c < 0xC0" using c by auto
  have ub: "ub \<le> 35"
    using ctx by (auto simp: utf8_context_def state_enum utf8_enum)
  note cell = the_table_ctx_cell [OF utf8_context_ctx [OF ctx], of _ isspace iswspace c]
  have r1: "build_unicode isspace iswspace d ub t (ub + TRI2_E0) c =
              (if 0xA0 \<le> c then ub + TRI3_E0_xx else ub + ILLEGAL)" for t
    using row_TRI2_E0 [OF c', of isspace iswspace d ub t] ub by (simp add: utf8_enum)
  have r2: "build_unicode isspace iswspace d ub t (ub + TRI2_ED) c =
              (if c \<le> 0x9F then ub + TRI3_Ed_xx else ub + ILLEGAL)" for t
    using row_TRI2_ED [OF c', of isspace iswspace d ub t] ub by (auto simp add: utf8_enum)
  have r3: "build_unicode isspace iswspace d ub t (ub + QUAD2_F0) c =
              (if 0x90 \<le> c then ub + QUAD3_F0_xx else ub + ILLEGAL)" for t
    using row_QUAD2_F0 [OF c', of isspace iswspace d ub t] ub by (simp add: utf8_enum)
  have r4: "build_unicode isspace iswspace d ub t (ub + QUAD2_F4) c =
              (if c \<le> 0x8F then ub + QUAD3_F4_xx else ub + ILLEGAL)" for t
    using row_QUAD2_F4 [OF c', of isspace iswspace d ub t] ub by (auto simp add: utf8_enum)
  show "the_table isspace iswspace True (ub + TRI2_E0) c =
           (if 0xA0 \<le> c then ub + TRI3_E0_xx else ub + ILLEGAL)"
    by (rule cell [OF _ r1]) (simp add: utf8_enum)
  show "the_table isspace iswspace True (ub + TRI2_ED) c =
           (if c \<le> 0x9F then ub + TRI3_Ed_xx else ub + ILLEGAL)"
    by (rule cell [OF _ r2]) (simp add: utf8_enum)
  show "the_table isspace iswspace True (ub + QUAD2_F0) c =
           (if 0x90 \<le> c then ub + QUAD3_F0_xx else ub + ILLEGAL)"
    by (rule cell [OF _ r3]) (simp add: utf8_enum)
  show "the_table isspace iswspace True (ub + QUAD2_F4) c =
           (if c \<le> 0x8F then ub + QUAD3_F4_xx else ub + ILLEGAL)"
    by (rule cell [OF _ r4]) (simp add: utf8_enum)
qed


lemma utf8_context_USPACE: "utf8_context USPACE NEWWORD WASSPACE"
  by (simp add: utf8_context_def)

lemma utf8_context_UWORD: "utf8_context UWORD WASWORD NEWWORD"
  by (simp add: utf8_context_def)

lemma last_byte_state_range:
  "last_byte_state i \<Longrightarrow> i < 2 \<or> (9 \<le> i \<and> i \<le> 20) \<or> (27 \<le> i \<and> i \<le> 29)"
  by (auto simp: last_byte_state_def utf8_enum)

lemma context_last_byte:
  assumes ctx: "utf8_context ub d b" and i: "last_byte_state i" and c: "0x80 \<le> c" "c \<le> 0xBF"
  shows "the_table isspace iswspace True (ub + i) c = WASSPACE \<or>
         the_table isspace iswspace True (ub + i) c = d"
proof -
  have r: "i < 2 \<or> (9 \<le> i \<and> i \<le> 20) \<or> (27 \<le> i \<and> i \<le> 29)"
    using i by (rule last_byte_state_range)
  then have il: "i \<le> ILLEGAL" by (auto simp: ILLEGAL_def)
  have c': "0x80 \<le> c" "c < 0xC0" using c by auto
  have d: "d < 4" "ub mod 256 = ub"
    using ctx by (auto simp: utf8_context_def state_enum utf8_enum)
  obtain t where t: "\<forall>c. the_table isspace iswspace True (ub + i) c =
               build_unicode isspace iswspace d ub t (ub + i) c"
    using the_table_mb_context [OF utf8_context_ctx [OF ctx] il, of isspace iswspace] by blast
  have z: "basic_cell isspace d ub 0 = WASSPACE \<or> basic_cell isspace d ub 0 = d"
    by (simp add: basic_cell_ascii)
  show ?thesis
    using urow_final [OF r c', of isspace iswspace d ub t] t d z
    by (auto simp: WASSPACE_def)
qed

lemma base_rows_ascii_mode:
  assumes ctx: "utf8_context ub d b" and c: "c < 0x80"
  shows "the_table isspace iswspace True b c = the_table isspace iswspace False b c"
proof -
  have b: "b < 4" "c < 256" using ctx c by (auto simp: utf8_context_def state_enum)
  show ?thesis
    using ctx c
    by (auto simp add: context_base_row [OF ctx b(2)] the_table_ascii [OF b] basic_cell_ascii
        ascii_cell_def utf8_context_def state_enum)
qed

lemma context_row_ascii:
  assumes ctx: "utf8_context ub d b" and i: "i \<le> ILLEGAL" and c: "c < 0x80"
  shows "the_table isspace iswspace True (ub + i) c = the_table isspace iswspace True b c"
proof -
  have c256: "c < 256" using c by simp
  have m: "ub mod 256 = ub" using ctx by (auto simp: utf8_context_def state_enum utf8_enum)
  show ?thesis
  proof (cases "i = ILLEGAL")
    case True
    then show ?thesis
      by (simp add: context_ILLEGAL_row [OF ctx c256] context_base_row [OF ctx c256])
  next
    case False
    then have "i < ILLEGAL" using i by simp
    then show ?thesis
      using the_table_ctx_cell [OF utf8_context_ctx [OF ctx] i, of isspace iswspace c
          "basic_cell isspace d ub c"] urow_ascii [of i c isspace iswspace d ub] c m
      by (simp add: context_base_row [OF ctx c256])
  qed
qed

lemma context_row_lead:
  assumes ctx: "utf8_context ub d b" and i: "i < ILLEGAL" and c: "0xC0 \<le> c" "c < 256"
  shows "the_table isspace iswspace True (ub + i) c = ub + ILLEGAL"
proof -
  have m: "(ub + ILLEGAL) mod 256 = ub + ILLEGAL"
    using context_mod [OF ctx, of ILLEGAL] by simp
  have il: "i \<le> ILLEGAL" using i by simp
  show ?thesis
    using the_table_ctx_cell [OF utf8_context_ctx [OF ctx] il, of isspace iswspace c "ub + ILLEGAL"]
      urow_lead_bytes [OF i, of c isspace iswspace d ub] c m by simp
qed

lemma context_row_ascii_counted:
  assumes ctx: "utf8_context ub d b" and i: "i \<le> ILLEGAL" and c: "c < 0x80"
  shows "the_table isspace iswspace True (ub + i) c < 4"
proof -
  have c256: "c < 256" using c by simp
  have "d < 4" using ctx by (auto simp: utf8_context_def state_enum)
  then show ?thesis
    using c by (simp add: context_row_ascii [OF ctx i c] context_base_row [OF ctx c256]
        basic_cell_ascii state_enum)
qed

lemma context_only_range:
  assumes ctx: "utf8_context ub d b" and i: "i < ILLEGAL" and n: "0 < n" "n < ILLEGAL"
    and c: "c < 256"
    and row: "\<And>c. 0x80 \<le> c \<and> c \<le> 0xBF \<Longrightarrow>
       the_table isspace iswspace True (ub + i) c = (if P c then ub + n else ub + ILLEGAL)"
  shows "(the_table isspace iswspace True (ub + i) c = ub + n) =
           (0x80 \<le> c \<and> c \<le> 0xBF \<and> P c)"
proof -
  have ub: "4 \<le> ub" using ctx by (auto simp: utf8_context_def state_enum utf8_enum)
  consider "c < 0x80" | "0x80 \<le> c \<and> c \<le> 0xBF" | "0xC0 \<le> c" by linarith
  then show ?thesis
  proof cases
    case 1
    then show ?thesis
      using context_row_ascii_counted [OF ctx less_imp_le [OF i] 1, of isspace iswspace] ub by simp
  next
    case 2
    then show ?thesis using row [OF 2] n by simp
  next
    case 3
    then show ?thesis
      using context_row_lead [OF ctx i 3 c, of isspace iswspace] n by simp
  qed
qed


section \<open>The processor follows the automaton\<close>

lemma trace_append: "trace T s (xs @ ys) = trace T s xs @ trace T (run T s xs) ys"
  by (induction xs arbitrary: s) (simp_all add: run_def)

lemma run_Nil [simp]: "run T s [] = s"
  by (simp add: run_def)

lemma run_Cons [simp]: "run T s (c # cs) = run T (T s (unat c)) cs"
  by (simp add: run_def)

lemma run_append: "run T s (xs @ ys) = run T (run T s xs) ys"
  by (induction xs arbitrary: s) simp_all

lemma length_trace [simp]: "length (trace T s buf) = length buf"
  by (induction buf arbitrary: s) simp_all

lemma unat_byte_less: "unat (c :: byte) < 256"
  using unsigned_less [of c, where 'a = nat] by simp

lemma trace_closed:
  "closed T \<Longrightarrow> s < STATE_MAX \<Longrightarrow> q \<in> set (trace T s buf) \<Longrightarrow> q < STATE_MAX"
proof (induction buf arbitrary: s)
  case Nil
  then show ?case by simp
next
  case (Cons c cs)
  have step: "T s (unat c) < STATE_MAX"
    using Cons.prems(1,2) unat_byte_less [of c] by (simp add: closed_def)
  from Cons.prems(3) have "q = T s (unat c) \<or> q \<in> set (trace T (T s (unat c)) cs)"
    by simp
  then show ?case
    using step Cons.IH [OF Cons.prems(1) step] by blast
qed

lemma run_closed: "closed T \<Longrightarrow> s < STATE_MAX \<Longrightarrow> run T s buf < STATE_MAX"
proof (induction buf arbitrary: s)
  case Nil
  then show ?case by simp
next
  case (Cons c cs)
  have "T s (unat c) < STATE_MAX"
    using Cons.prems unat_byte_less [of c] by (simp add: closed_def)
  then show ?case using Cons.IH [OF Cons.prems(1)] by simp
qed

lemma p_loop_trace:
  "closed T \<Longrightarrow> s < STATE_MAX \<Longrightarrow>
   parse_chunk_p_loop T buf s counts =
     Some (run T s buf, \<lambda>q. counts q + of_nat (count_list (trace T s buf) q))"
proof (induction buf arbitrary: s counts)
  case Nil
  then show ?case by simp
next
  case (Cons c cs)
  have step: "T s (unat c) < STATE_MAX"
    using Cons.prems unat_byte_less [of c] by (simp add: closed_def)
  have row: "s < 256"
    using Cons.prems(2) by (simp add: state_enum utf8_enum)
  show ?case
    using step row Cons.IH [OF Cons.prems(1) step]
    by (simp add: Let_def fun_eq_iff)
qed

lemma loop_drop:
  "parse_chunk_loop T buf i state counts = parse_chunk_p_loop T (drop i buf) state counts"
proof (induction T buf i state counts rule: parse_chunk_loop.induct)
  case (1 T buf i state counts)
  show ?case
  proof (cases "i < length buf")
    case True
    then have d: "drop i buf = buf ! i # drop (Suc i) buf"
      by (simp add: Cons_nth_drop_Suc)
    show ?thesis
      using True d 1 [OF True _ refl]
      by (subst parse_chunk_loop.simps) (simp add: Let_def fun_upd_def)
  next
    case False
    then show ?thesis
      by (subst parse_chunk_loop.simps) simp
  qed
qed

lemma parse_chunk_eq_p: "parse_chunk T uninit buf s = parse_chunk_p T uninit buf s"
  by (simp add: parse_chunk_def parse_chunk_p_def loop_drop)


subsection \<open>Tallies in 32 and 64 bits\<close>

lemma init_counts_public [simp]:
  "init_counts uninit NEWLINE = 0" "init_counts uninit NEWWORD = 0"
  "init_counts uninit WASSPACE = 0" "init_counts uninit WASWORD = 0"
  by (simp_all add: init_counts_def state_enum)

lemma count_four:
  "length (filter (\<lambda>q. q = NEWLINE \<or> q = WASSPACE \<or> q = WASWORD \<or> q = NEWWORD) xs) =
     count_list xs NEWLINE + count_list xs WASSPACE + count_list xs WASWORD + count_list xs NEWWORD"
  by (induction xs) (auto simp: state_enum)

lemma count_list_le_length: "count_list xs x \<le> length xs"
  by (induction xs) auto

lemma unat_widen: "unat (ucast (of_nat n :: uint) :: ulong) = n mod 2 ^ 32"
proof -
  have "unat (ucast (of_nat n :: uint) :: ulong) = take_bit 64 (unat (of_nat n :: uint))"
    by (simp add: unsigned_ucast_eq)
  also have "\<dots> = take_bit 64 (n mod 2 ^ 32)"
    by (simp add: unat_of_nat)
  also have "\<dots> = n mod 2 ^ 32"
  proof -
    have "n mod 2 ^ 32 < (2::nat) ^ 32" by simp
    also have "\<dots> < 2 ^ 64" by simp
    finally show ?thesis by (simp add: take_bit_nat_eq_self)
  qed
  finally show ?thesis .
qed

lemma widen_small:
  assumes "n < 2 ^ 32"
  shows "(ucast (of_nat n :: uint) :: ulong) = of_nat n"
proof -
  have "unat (ucast (of_nat n :: uint) :: ulong) = unat (of_nat n :: ulong)"
    using assms by (simp add: unat_widen unat_of_nat)
  then show ?thesis
    by (simp add: word_unat_eq_iff)
qed

lemma unat_ulong_small: "n < 2 ^ 64 \<Longrightarrow> unat (of_nat n :: ulong) = n"
  by (simp add: unat_of_nat)




text \<open>
  On the table that the builder made, and from a state below \<open>STATE_MAX\<close>, the processor
  never leaves its arrays, and its results are the tallies of the run, cut to 32 bits.
\<close>

lemma parse_chunk_the_table:
  "s < STATE_MAX \<Longrightarrow>
   parse_chunk (the_table isspace iswspace mb) uninit buf s =
     Some (\<lparr>line_count =
              ucast (of_nat (count_list (trace (the_table isspace iswspace mb) s buf) NEWLINE) :: uint),
            word_count =
              ucast (of_nat (count_list (trace (the_table isspace iswspace mb) s buf) NEWWORD) :: uint),
            char_count =
              ucast (of_nat (length (filter (\<lambda>q. q = NEWLINE \<or> q = WASSPACE \<or> q = WASWORD \<or> q = NEWWORD)
                                   (trace (the_table isspace iswspace mb) s buf))) :: uint),
            byte_count = of_nat (length buf)\<rparr>,
           run (the_table isspace iswspace mb) s buf)"
  by (simp add: parse_chunk_def loop_drop p_loop_trace [OF the_table_closed] count_four)

lemma parse_chunk_p_the_table:
  "s < STATE_MAX \<Longrightarrow>
   parse_chunk_p (the_table isspace iswspace mb) uninit buf s =
     parse_chunk (the_table isspace iswspace mb) uninit' buf s"
  by (simp add: parse_chunk_def parse_chunk_p_def loop_drop p_loop_trace [OF the_table_closed])

text \<open>Below \<open>2^32\<close> bytes no tally is cut.\<close>

lemma parse_chunk_small:
  assumes "s < STATE_MAX" "length buf < 2 ^ 32"
  shows "parse_chunk (the_table isspace iswspace mb) uninit buf s =
     Some (\<lparr>line_count = of_nat (count_list (trace (the_table isspace iswspace mb) s buf) NEWLINE),
            word_count = of_nat (count_list (trace (the_table isspace iswspace mb) s buf) NEWWORD),
            char_count =
              of_nat (length (filter (\<lambda>q. q = NEWLINE \<or> q = WASSPACE \<or> q = WASWORD \<or> q = NEWWORD)
                                (trace (the_table isspace iswspace mb) s buf))),
            byte_count = of_nat (length buf)\<rparr>,
           run (the_table isspace iswspace mb) s buf)"
proof -
  let ?tr = "trace (the_table isspace iswspace mb) s buf"
  have l: "length ?tr < 2 ^ 32" using assms(2) by simp
  have 1: "count_list ?tr q < 2 ^ 32" for q
    using count_list_le_length [of ?tr q] l by linarith
  have 2: "length (filter (\<lambda>q. q = NEWLINE \<or> q = WASSPACE \<or> q = WASWORD \<or> q = NEWWORD) ?tr) < 2 ^ 32"
    using length_filter_le [of _ ?tr] l by (rule le_less_trans)
  show ?thesis
    by (simp add: parse_chunk_the_table [OF assms(1)] widen_small [OF 1] widen_small [OF 2])
qed

lemma zero_in_domain: "0 < STATE_MAX"
  by (simp add: STATE_MAX_eq)


lemma c_isspace_0: "\<not> c_isspace 0"
  by (simp add: c_isspace_def)


subsection \<open>Runs that stay in the counted states\<close>









subsection \<open>Words on the ASCII table\<close>

lemma ascii_word_byte:
  assumes "s < 4" "unat (c::byte) \<noteq> 0x0A" "\<not> isspace (unat c)"
  shows "the_table isspace iswspace False s (unat c) =
           (if s = WASSPACE \<or> s = NEWLINE then NEWWORD else WASWORD)"
  using assms by (simp add: the_table_ascii unat_byte_less ascii_cell_def)

lemma ascii_space_byte:
  assumes "s < 4" "unat (c::byte) \<noteq> 0x0A" "isspace (unat c)"
  shows "the_table isspace iswspace False s (unat c) = WASSPACE"
  using assms by (simp add: the_table_ascii unat_byte_less ascii_cell_def)

lemma ascii_word_trace:
  assumes "\<forall>b\<in>set w. unat b \<noteq> 0x0A \<and> \<not> isspace (unat b)" "s < 4"
  shows "count_list (trace (the_table isspace iswspace False) s w) NEWWORD =
           (if w \<noteq> [] \<and> (s = WASSPACE \<or> s = NEWLINE) then 1 else 0) \<and>
         count_list (trace (the_table isspace iswspace False) s w) NEWLINE = 0 \<and>
         (w \<noteq> [] \<longrightarrow> run (the_table isspace iswspace False) s w = NEWWORD \<or>
                     run (the_table isspace iswspace False) s w = WASWORD)"
  using assms
proof (induction w arbitrary: s)
  case Nil
  then show ?case by simp
next
  case (Cons c cs)
  let ?T = "the_table isspace iswspace False"
  have c: "unat c \<noteq> 0x0A" "\<not> isspace (unat c)" and cs: "\<forall>b\<in>set cs. unat b \<noteq> 0x0A \<and> \<not> isspace (unat b)"
    using Cons.prems(1) by simp_all
  have step: "?T s (unat c) = (if s = WASSPACE \<or> s = NEWLINE then NEWWORD else WASWORD)"
    by (rule ascii_word_byte [of s c isspace iswspace, OF Cons.prems(2) c(1) c(2)])
  have s': "?T s (unat c) < 4" "?T s (unat c) \<noteq> WASSPACE" "?T s (unat c) \<noteq> NEWLINE"
    using step by (auto simp: state_enum)
  note ih = Cons.IH [OF cs s'(1)]
  show ?case
    using ih s' step by (cases "cs = []") (auto simp: state_enum)
qed

lemma ascii_sentence_trace:
  assumes "\<forall>w\<in>set (w0 # map snd rest). w \<noteq> [] \<and> (\<forall>b\<in>set w. unat b \<noteq> 0x0A \<and> \<not> isspace (unat b))"
    and "\<forall>s\<in>set (map fst rest). unat s \<noteq> 0x0A \<and> isspace (unat s)"
    and "s = WASSPACE \<or> s = NEWLINE"
  shows "count_list (trace (the_table isspace iswspace False) s (sentence w0 rest)) NEWWORD =
           Suc (length rest) \<and>
         count_list (trace (the_table isspace iswspace False) s (sentence w0 rest)) NEWLINE = 0"
  using assms
proof (induction rest arbitrary: w0 s)
  case Nil
  have s: "s < 4" using Nil.prems(3) by (auto simp: state_enum)
  have w: "\<forall>b\<in>set w0. unat b \<noteq> 0x0A \<and> \<not> isspace (unat b)" "w0 \<noteq> []"
    using Nil.prems(1) by simp_all
  show ?case
    using ascii_word_trace [OF w(1) s, of iswspace] w(2) Nil.prems(3) by simp
next
  case (Cons p rest)
  let ?T = "the_table isspace iswspace False"
  obtain sp w' where p: "p = (sp, w')" by (cases p)
  have s: "s < 4" using Cons.prems(3) by (auto simp: state_enum)
  have w: "\<forall>b\<in>set w0. unat b \<noteq> 0x0A \<and> \<not> isspace (unat b)" "w0 \<noteq> []"
    using Cons.prems(1) by simp_all
  have sp: "unat sp \<noteq> 0x0A" "isspace (unat sp)"
    using Cons.prems(2) p by simp_all
  have rest1: "\<forall>w\<in>set (w' # map snd rest). w \<noteq> [] \<and> (\<forall>b\<in>set w. unat b \<noteq> 0x0A \<and> \<not> isspace (unat b))"
    using Cons.prems(1) p by simp
  have rest2: "\<forall>s\<in>set (map fst rest). unat s \<noteq> 0x0A \<and> isspace (unat s)"
    using Cons.prems(2) by simp
  note wt = ascii_word_trace [OF w(1) s, of iswspace]
  have r: "run ?T s w0 < 4"
    using wt w(2) by (auto simp: state_enum)
  have stp: "?T (run ?T s w0) (unat sp) = WASSPACE"
    by (rule ascii_space_byte [of _ sp isspace iswspace, OF r sp(1) sp(2)])
  have ih: "count_list (trace ?T WASSPACE (sentence w' rest)) NEWWORD = Suc (length rest) \<and>
            count_list (trace ?T WASSPACE (sentence w' rest)) NEWLINE = 0"
    by (rule Cons.IH [OF rest1 rest2]) simp
  show ?case
    using wt w(2) Cons.prems(3) stp ih
    by (simp add: p trace_append state_enum)
qed


subsection \<open>The table of pointers follows the table\<close>

lemma PSTATE_row: "0 < psz \<Longrightarrow> PSTATE base psz (base + v * 256 * psz) = v"
  by (simp add: PSTATE_def)

lemma compile_pointers_row_result:
  assumes "0 < psz"
  shows "\<exists>tp'. compile_pointers_row T base psz i js tp = Some tp' \<and>
           (\<forall>i' j'. tp' i' j' =
              (if i' = i \<and> j' \<in> set js then base + T i j' * 256 * psz else tp i' j'))"
proof (induction js arbitrary: tp)
  case Nil
  then show ?case by simp
next
  case (Cons j js)
  let ?tp = "tp(i := (tp i)(j := base + T i j * 256 * psz))"
  obtain tp' where tp': "compile_pointers_row T base psz i js ?tp = Some tp'"
    "\<forall>i' j'. tp' i' j' =
        (if i' = i \<and> j' \<in> set js then base + T i j' * 256 * psz else ?tp i' j')"
    using Cons.IH [of ?tp] by blast
  have "compile_pointers_row T base psz i (j # js) tp = Some tp'"
    using tp'(1) PSTATE_row [OF assms, of base "T i j"] by (simp add: Let_def)
  moreover have "\<forall>i' j'. tp' i' j' =
      (if i' = i \<and> j' \<in> set (j # js) then base + T i j' * 256 * psz else tp i' j')"
    using tp'(2) by auto
  ultimately show ?case by blast
qed

lemma compile_pointers_rows_result:
  assumes "0 < psz"
  shows "\<exists>tp'. compile_pointers_rows T base psz rows tp = Some tp' \<and>
           (\<forall>i j. tp' i j =
              (if i \<in> set rows \<and> j < 256 then base + T i j * 256 * psz else tp i j))"
proof (induction rows arbitrary: tp)
  case Nil
  then show ?case by simp
next
  case (Cons i rows)
  obtain tp1 where tp1: "compile_pointers_row T base psz i [0..<256] tp = Some tp1"
    "\<forall>i' j'. tp1 i' j' =
        (if i' = i \<and> j' \<in> set [0..<256] then base + T i j' * 256 * psz else tp i' j')"
    using compile_pointers_row_result [OF assms, of T base i "[0..<256]" tp] by blast
  obtain tp' where tp': "compile_pointers_rows T base psz rows tp1 = Some tp'"
    "\<forall>i j. tp' i j =
        (if i \<in> set rows \<and> j < 256 then base + T i j * 256 * psz else tp1 i j)"
    using Cons.IH [of tp1] by blast
  have "compile_pointers_rows T base psz (i # rows) tp = Some tp'"
    using tp1(1) tp'(1) by simp
  moreover have "\<forall>i' j. tp' i' j =
      (if i' \<in> set (i # rows) \<and> j < 256 then base + T i' j * 256 * psz else tp i' j)"
    using tp1(2) tp'(2) by auto
  ultimately show ?case by blast
qed

lemma compile_pointers_result:
  assumes "0 < psz"
  shows "\<exists>tp'. compile_pointers T base psz tp = Some tp' \<and>
           (\<forall>i j. i < STATE_MAX \<longrightarrow> j < 256 \<longrightarrow> tp' i j = base + T i j * 256 * psz)"
  using compile_pointers_rows_result [OF assms, of T base "[0..<STATE_MAX]" tp]
  by (auto simp: compile_pointers_def)

lemma load_ptr_cell:
  assumes "0 < psz" "s < 256" "c < 256"
  shows "load_ptr tp base psz (base + s * 256 * psz + c * psz) = Some (tp s c)"
proof -
  have e: "base + s * 256 * psz + c * psz - base = (s * 256 + c) * psz"
    by (simp add: algebra_simps)
  have "(s * 256 + c) * psz < 256 * 256 * psz"
  proof -
    have "s * 256 + c < 256 * 256" using assms(2,3) by simp
    then show ?thesis using assms(1) by simp
  qed
  then have r: "base + s * 256 * psz + c * psz < base + 256 * 256 * psz"
    by (simp add: algebra_simps)
  have d: "(s * 256 + c) * psz div psz = s * 256 + c"
    using assms(1) by simp
  have "(s * 256 + c) div 256 = s" "(s * 256 + c) mod 256 = c"
    using assms(3) by simp_all
  then show ?thesis
    unfolding load_ptr_def e d using r by simp
qed

lemma pp_loop_trace:
  assumes psz: "0 < psz"
    and tp: "\<forall>i j. i < STATE_MAX \<longrightarrow> j < 256 \<longrightarrow> tp i j = base + T i j * 256 * psz"
    and cl: "closed T"
  shows "s < STATE_MAX \<Longrightarrow>
     parse_chunk_pp_loop tp base psz buf (base + s * 256 * psz) counts =
       Some (base + run T s buf * 256 * psz,
             \<lambda>q. counts q + of_nat (count_list (trace T s buf) q))"
proof (induction buf arbitrary: s counts)
  case Nil
  then show ?case by simp
next
  case (Cons c cs)
  have c: "unat c < 256" by (rule unat_byte_less)
  have s: "s < 256" using Cons.prems by (simp add: STATE_MAX_eq)
  have step: "T s (unat c) < STATE_MAX"
    using cl Cons.prems c by (simp add: closed_def)
  have ld: "load_ptr tp base psz (base + s * 256 * psz + unat c * psz) =
              Some (base + T s (unat c) * 256 * psz)"
    using load_ptr_cell [OF psz s c, of tp base] tp Cons.prems c by simp
  have ps: "PSTATE base psz (base + T s (unat c) * 256 * psz) = T s (unat c)"
    by (rule PSTATE_row [OF psz])
  show ?case
    using ld ps step Cons.IH [OF step]
    by (simp add: fun_eq_iff)
qed

text \<open>
  \<open>parse_chunk_pp\<close> on the table of pointers that \<open>compile_pointers\<close> made: the tallies
  of the run, in 64 bits.
\<close>

lemma parse_chunk_pp_the_table:
  assumes "0 < psz" "s < STATE_MAX"
    and "compile_pointers (the_table isspace iswspace mb) base psz tp0 = Some tp"
  shows "parse_chunk_pp tp base psz uninit buf s =
     Some (\<lparr>line_count = of_nat (count_list (trace (the_table isspace iswspace mb) s buf) NEWLINE),
            word_count = of_nat (count_list (trace (the_table isspace iswspace mb) s buf) NEWWORD),
            char_count =
              of_nat (length (filter (\<lambda>q. q = NEWLINE \<or> q = WASSPACE \<or> q = WASWORD \<or> q = NEWWORD)
                                (trace (the_table isspace iswspace mb) s buf))),
            byte_count = of_nat (length buf)\<rparr>,
           run (the_table isspace iswspace mb) s buf)"
proof -
  have tp: "\<forall>i j. i < STATE_MAX \<longrightarrow> j < 256 \<longrightarrow>
              tp i j = base + the_table isspace iswspace mb i j * 256 * psz"
    using compile_pointers_result [OF assms(1), of "the_table isspace iswspace mb" base tp0] assms(3)
    by auto
  show ?thesis
    using pp_loop_trace [OF assms(1) tp the_table_closed assms(2)] PSTATE_row [OF assms(1)]
    by (simp add: parse_chunk_pp_def count_four)
qed

lemma compile_pointers_the: 
  "0 < psz \<Longrightarrow> compile_pointers T base psz tp0 = Some (the (compile_pointers T base psz tp0))"
  using compile_pointers_result [of psz T base tp0] by auto

lemma eight_pos: "(0::nat) < 8"
  by simp


subsection \<open>Buffers of one repeated byte\<close>

lemma count_list_replicate: "count_list (replicate n x) y = (if x = y then n else 0)"
  by (induction n) auto

lemma filter_replicate_length: "length (filter P (replicate n x)) = (if P x then n else 0)"
  by (induction n) auto

lemma ascii_newline_cell: "s < 4 \<Longrightarrow> the_table isspace iswspace False s 10 = NEWLINE"
  by (simp add: the_table_ascii ascii_cell_def)

lemma ascii_newlines_trace:
  "s < 4 \<Longrightarrow>
   trace (the_table isspace iswspace False) s (replicate n 0x0A) = replicate n NEWLINE"
proof (induction n arbitrary: s)
  case 0
  then show ?case by simp
next
  case (Suc n)
  have "NEWLINE < 4" by (simp add: NEWLINE_def)
  then show ?case
    using Suc.IH [of NEWLINE] ascii_newline_cell [OF Suc.prems, of isspace iswspace] by simp
qed

lemma ascii_newlines_run:
  "s < 4 \<Longrightarrow> 0 < n \<Longrightarrow>
   run (the_table isspace iswspace False) s (replicate n 0x0A) = NEWLINE"
proof -
  assume s: "s < 4" and n: "0 < n"
  have "run (the_table isspace iswspace False) s (replicate n 0x0A) =
          last (s # replicate n NEWLINE)"
    by (simp only: run_def ascii_newlines_trace [OF s])
  then show ?thesis
    using n by simp
qed

lemma ascii_newlines_chunk:
  assumes "s < 4" "0 < n"
  shows "parse_chunk (the_table isspace iswspace False) uninit (replicate n 0x0A) s =
     Some (\<lparr>line_count = ucast (of_nat n :: uint), word_count = 0,
            char_count = ucast (of_nat n :: uint), byte_count = of_nat n\<rparr>, NEWLINE)"
proof -
  have s: "s < STATE_MAX" using assms(1) by (simp add: STATE_MAX_eq)
  show ?thesis
    by (simp add: parse_chunk_the_table [OF s] ascii_newlines_trace [OF assms(1)]
        ascii_newlines_run [OF assms] count_list_replicate filter_replicate_length state_enum)
qed

lemma ascii_newlines_chunk_pp:
  assumes "s < 4" "0 < n" "0 < psz"
    and "compile_pointers (the_table isspace iswspace False) base psz tp0 = Some tp"
  shows "parse_chunk_pp tp base psz uninit (replicate n 0x0A) s =
     Some (\<lparr>line_count = of_nat n, word_count = 0,
            char_count = of_nat n, byte_count = of_nat n\<rparr>, NEWLINE)"
proof -
  have s: "s < STATE_MAX" using assms(1) by (simp add: STATE_MAX_eq)
  show ?thesis
    by (simp add: parse_chunk_pp_the_table [OF assms(3) s assms(4)]
        ascii_newlines_trace [OF assms(1)] ascii_newlines_run [OF assms(1,2)]
        count_list_replicate filter_replicate_length state_enum)
qed






subsection \<open>The Euro sign on the multibyte table\<close>

lemma euro_cells:
  assumes "\<not> isspace 0"
  shows "the_table isspace iswspace True 0 0xE2 = 8"
    and "the_table isspace iswspace True 8 0x82 = 18"
    and "the_table isspace iswspace True 18 0xAC = 2"
proof -
  let ?T = "the_table isspace iswspace True"
  have ctx: "USPACE = USPACE \<and> NEWWORD = NEWWORD \<or> USPACE = UWORD \<and> NEWWORD = WASWORD"
    by simp
  show "?T 0 0xE2 = 8"
    using the_table_mb_space_rows [of 0 "0xE2" isspace iswspace]
    by (simp add: basic_cell_def state_enum utf8_enum)
  have "?T (USPACE + TRI2_E2) 0x82 = 18"
    by (rule the_table_ctx_cell [OF ctx]) (simp_all add: row_TRI2_E2, simp_all add: state_enum utf8_enum)
  then show "?T 8 0x82 = 18"
    by (simp add: state_enum utf8_enum)
  have "?T (USPACE + TRI3_E2_xx) 0xAC = 2"
    by (rule the_table_ctx_cell [OF ctx])
       (simp_all add: row_TRI3_E2_xx basic_cell_ascii assms, simp_all add: state_enum utf8_enum)
  then show "?T 18 0xAC = 2"
    by (simp add: state_enum utf8_enum)
qed

lemma in_domain_8: "8 < STATE_MAX"
  by (simp add: STATE_MAX_eq)


section \<open>The claims about the chunk processor\<close>

text \<open>
  Claim C9. For every inbound state and either mode of the table, \<open>parse_chunk\<close> on the
  empty buffer returns the results with all four counters zero and leaves the inbound
  state as it is. The state need not be below \<open>STATE_MAX\<close>: with no byte to read, no
  row of the table is touched.
\<close>

theorem C9_empty_buffer:
  "parse_chunk (the_table isspace iswspace is_multibyte) uninit [] state =
     Some (\<lparr>line_count = 0, word_count = 0, char_count = 0, byte_count = 0\<rparr>, state)"
  by (simp add: parse_chunk_def parse_chunk_loop.simps)

text \<open>
  Claim C2, as stated: for every buffer, \<open>line_count\<close> is the number of transitions that
  land in NEWLINE. The tallies of \<open>parse_chunk\<close> are \<open>unsigned\<close>: on a buffer of \<open>2^32\<close>
  new-line bytes, in the ASCII mode, all \<open>2^32\<close> transitions land in NEWLINE, the tally
  wraps around to 0, and \<open>line_count\<close> and \<open>char_count\<close> are 0.
\<close>

theorem C2_counterexample:
  "count_list (trace (the_table c_isspace c_iswspace False) 0 (replicate 4294967296 0x0A)) NEWLINE
     = 4294967296 \<and>
   parse_chunk (the_table c_isspace c_iswspace False) zero_counts (replicate 4294967296 0x0A) 0 =
     Some (\<lparr>line_count = 0, word_count = 0, char_count = 0, byte_count = 4294967296\<rparr>, NEWLINE)"
proof -
  have s: "(0::nat) < 4" and n: "(0::nat) < 4294967296" by simp_all
  show ?thesis
    by (simp add: ascii_newlines_trace [OF s] count_list_replicate ascii_newlines_chunk [OF s n])
qed

text \<open>
  Claim C2, amended: for every buffer of fewer than \<open>2^32\<close> bytes and every inbound state
  below \<open>STATE_MAX\<close>, the results of \<open>parse_chunk\<close> are the tallies of the transitions of
  the run: \<open>line_count\<close> is the number of transitions that land in NEWLINE, \<open>word_count\<close>
  the number that land in NEWWORD, \<open>char_count\<close> the number that land in one of NEWLINE,
  WASSPACE, WASWORD and NEWWORD, and \<open>byte_count\<close> is the length of the buffer. The
  state handed back is the state after the last byte.
\<close>

theorem C2_results_from_tallies:
  assumes "state < STATE_MAX" and "length buf < 2 ^ 32"
  shows "\<exists>r. parse_chunk (the_table isspace iswspace is_multibyte) uninit buf state =
           Some (r, run (the_table isspace iswspace is_multibyte) state buf) \<and>
         unat (line_count r) =
           count_list (trace (the_table isspace iswspace is_multibyte) state buf) NEWLINE \<and>
         unat (word_count r) =
           count_list (trace (the_table isspace iswspace is_multibyte) state buf) NEWWORD \<and>
         unat (char_count r) =
           length (filter (\<lambda>q. q = NEWLINE \<or> q = WASSPACE \<or> q = WASWORD \<or> q = NEWWORD)
                     (trace (the_table isspace iswspace is_multibyte) state buf)) \<and>
         unat (byte_count r) = length buf"
proof -
  let ?tr = "trace (the_table isspace iswspace is_multibyte) state buf"
  have l: "length ?tr < 2 ^ 32" using assms(2) by simp
  have b: "length buf < 2 ^ 64"
    using assms(2) by (rule less_trans) simp
  have 1: "count_list ?tr q < 2 ^ 64" for q
    using count_list_le_length [of ?tr q] b by simp
  have "length (filter P ?tr) \<le> length buf" for P
    using length_filter_le [of P ?tr] by simp
  then have 2: "length (filter (\<lambda>q. q = NEWLINE \<or> q = WASSPACE \<or> q = WASWORD \<or> q = NEWWORD) ?tr)
             < 2 ^ 64"
    using b by (rule le_less_trans)
  show ?thesis
    by (simp add: parse_chunk_small [OF assms] unat_ulong_small [OF 1] unat_ulong_small [OF 2]
        unat_ulong_small [OF b])
qed

text \<open>
  The bytes of \<open>hello world\<close> and a new-line, in the ASCII mode, from the initial state.
\<close>

theorem C2_results_from_tallies_witness:
  "(0::nat) < STATE_MAX \<and>
   length [0x68, 0x65, 0x6C, 0x6C, 0x6F, 0x20, 0x77, 0x6F, 0x72, 0x6C, 0x64, 0x0A :: byte] < 2 ^ 32 \<and>
   (\<exists>r. parse_chunk (the_table c_isspace c_iswspace False) zero_counts
          [0x68, 0x65, 0x6C, 0x6C, 0x6F, 0x20, 0x77, 0x6F, 0x72, 0x6C, 0x64, 0x0A] 0 =
            Some (r, NEWLINE) \<and>
        unat (line_count r) = 1 \<and> unat (word_count r) = 2 \<and>
        unat (char_count r) = 12 \<and> unat (byte_count r) = 12)"
proof -
  have l: "length [0x68, 0x65, 0x6C, 0x6C, 0x6F, 0x20, 0x77, 0x6F, 0x72, 0x6C, 0x64, 0x0A :: byte]
             < 2 ^ 32"
    by simp
  have "\<exists>r. parse_chunk (the_table c_isspace c_iswspace False) zero_counts
          [0x68, 0x65, 0x6C, 0x6C, 0x6F, 0x20, 0x77, 0x6F, 0x72, 0x6C, 0x64, 0x0A] 0 =
            Some (r, Suc 0) \<and>
        unat (line_count r) = Suc 0 \<and> unat (word_count r) = Suc (Suc 0) \<and>
        unat (char_count r) = Suc (Suc (Suc (Suc (Suc (Suc (Suc (Suc (Suc (Suc (Suc (Suc 0))))))))))) \<and>
        unat (byte_count r) = Suc (Suc (Suc (Suc (Suc (Suc (Suc (Suc (Suc (Suc (Suc (Suc 0)))))))))))"
    using C2_results_from_tallies [OF zero_in_domain l, of c_isspace c_iswspace False zero_counts]
    by (simp add: the_table_ascii ascii_cell_def c_isspace_def state_enum utf8_enum run_def)
  then have "\<exists>r. parse_chunk (the_table c_isspace c_iswspace False) zero_counts
          [0x68, 0x65, 0x6C, 0x6C, 0x6F, 0x20, 0x77, 0x6F, 0x72, 0x6C, 0x64, 0x0A] 0 =
            Some (r, NEWLINE) \<and>
        unat (line_count r) = 1 \<and> unat (word_count r) = 2 \<and>
        unat (char_count r) = 12 \<and> unat (byte_count r) = 12"
    by (simp add: eval_nat_numeral NEWLINE_def)
  then show ?thesis
    using zero_in_domain l by blast
qed

text \<open>
  Claim C1, as stated: for every byte sequence and every split, the two results sum to
  the result of the single call. On \<open>2^32\<close> new-line bytes split in the middle, in the
  ASCII mode, each half gives \<open>line_count = 2^31\<close>, and \<open>parse_file\<close> adds them in
  \<open>unsigned long\<close> to \<open>2^32\<close>; the single call tallies in \<open>unsigned\<close>, wraps around, and
  gives \<open>line_count = 0\<close>.
\<close>

theorem C1_counterexample:
  "parse_chunk (the_table c_isspace c_iswspace False) zero_counts (replicate 2147483648 0x0A) 0 =
     Some (\<lparr>line_count = 2147483648, word_count = 0, char_count = 2147483648,
            byte_count = 2147483648\<rparr>, NEWLINE) \<and>
   parse_chunk (the_table c_isspace c_iswspace False) zero_counts (replicate 2147483648 0x0A)
       NEWLINE =
     Some (\<lparr>line_count = 2147483648, word_count = 0, char_count = 2147483648,
            byte_count = 2147483648\<rparr>, NEWLINE) \<and>
   sum_results
       \<lparr>line_count = 2147483648, word_count = 0, char_count = 2147483648, byte_count = 2147483648\<rparr>
       \<lparr>line_count = 2147483648, word_count = 0, char_count = 2147483648, byte_count = 2147483648\<rparr> =
     \<lparr>line_count = 4294967296, word_count = 0, char_count = 4294967296, byte_count = 4294967296\<rparr> \<and>
   parse_chunk (the_table c_isspace c_iswspace False) zero_counts
       (replicate 2147483648 0x0A @ replicate 2147483648 0x0A) 0 =
     Some (\<lparr>line_count = 0, word_count = 0, char_count = 0, byte_count = 4294967296\<rparr>, NEWLINE)"
proof -
  have s: "(0::nat) < 4" "NEWLINE < 4" by (simp_all add: NEWLINE_def)
  have n: "(0::nat) < 2147483648" "(0::nat) < 4294967296" by simp_all
  have j: "replicate 2147483648 (0x0A :: byte) @ replicate 2147483648 0x0A =
             replicate 4294967296 0x0A"
    by (simp add: replicate_add [symmetric])
  show ?thesis
    unfolding j
    by (simp add: ascii_newlines_chunk [OF s(1) n(1)] ascii_newlines_chunk [OF s(2) n(1)]
        ascii_newlines_chunk [OF s(1) n(2)] sum_results_def)
qed

text \<open>
  Claim C1, amended: for every byte sequence of fewer than \<open>2^32\<close> bytes and every split
  of it into two buffers \<open>xs\<close> and \<open>ys\<close>, in either mode: \<open>parse_chunk\<close> on \<open>xs\<close> from
  the initial state 0, then on \<open>ys\<close> from the state that the first call left, gives two
  results whose field-wise sum is the result of one call on \<open>xs @ ys\<close>, and the same
  final state. The split may fall anywhere, also inside a UTF-8 sequence, since \<open>xs\<close>
  and \<open>ys\<close> are arbitrary.
\<close>

theorem C1_chunking_invariance:
  assumes "length (xs @ ys) < 2 ^ 32"
  shows "\<exists>r1 s1 r2 s2.
     parse_chunk (the_table isspace iswspace is_multibyte) uninit1 xs 0 = Some (r1, s1) \<and>
     parse_chunk (the_table isspace iswspace is_multibyte) uninit2 ys s1 = Some (r2, s2) \<and>
     parse_chunk (the_table isspace iswspace is_multibyte) uninit (xs @ ys) 0 =
       Some (sum_results r1 r2, s2)"
proof -
  let ?T = "the_table isspace iswspace is_multibyte"
  have s1: "run ?T 0 xs < STATE_MAX"
    by (rule run_closed [OF the_table_closed zero_in_domain])
  have lx: "length xs < 2 ^ 32" and ly: "length ys < 2 ^ 32"
    using assms by simp_all
  show ?thesis
    by (simp add: parse_chunk_small [OF zero_in_domain assms] parse_chunk_small [OF zero_in_domain lx]
        parse_chunk_small [OF s1 ly] sum_results_def trace_append run_append)
qed

text \<open>
  The Euro sign on the multibyte table of the "C" locale, split behind its first byte.
\<close>

theorem C1_chunking_invariance_witness:
  "length ([0xE2] @ [0x82, 0xAC :: byte]) < 2 ^ 32 \<and>
   parse_chunk (the_table c_isspace c_iswspace True) zero_counts [0xE2] 0 =
     Some (\<lparr>line_count = 0, word_count = 0, char_count = 0, byte_count = 1\<rparr>, USPACE + TRI2_E2) \<and>
   parse_chunk (the_table c_isspace c_iswspace True) zero_counts [0x82, 0xAC] (USPACE + TRI2_E2) =
     Some (\<lparr>line_count = 0, word_count = 1, char_count = 1, byte_count = 2\<rparr>, NEWWORD) \<and>
   parse_chunk (the_table c_isspace c_iswspace True) zero_counts ([0xE2] @ [0x82, 0xAC]) 0 =
     Some (sum_results \<lparr>line_count = 0, word_count = 0, char_count = 0, byte_count = 1\<rparr>
                       \<lparr>line_count = 0, word_count = 1, char_count = 1, byte_count = 2\<rparr>, NEWWORD)"
proof -
  let ?T = "the_table c_isspace c_iswspace True"
  have l: "length ([0xE2] @ [0x82, 0xAC :: byte]) < 2 ^ 32" by simp
  note cells = euro_cells [of c_isspace c_iswspace, OF c_isspace_0]
  have 1: "parse_chunk ?T zero_counts [0xE2] 0 =
     Some (\<lparr>line_count = 0, word_count = 0, char_count = 0, byte_count = 1\<rparr>, USPACE + TRI2_E2)"
    by (simp add: parse_chunk_the_table [OF zero_in_domain] cells run_def state_enum utf8_enum)
  have 2: "parse_chunk ?T zero_counts [0x82, 0xAC] (USPACE + TRI2_E2) =
     Some (\<lparr>line_count = 0, word_count = 1, char_count = 1, byte_count = 2\<rparr>, NEWWORD)"
    using parse_chunk_the_table [OF in_domain_8, of c_isspace c_iswspace True zero_counts
        "[0x82, 0xAC]"]
    by (simp add: cells run_def state_enum utf8_enum)
  obtain r1 s1 r2 s2 where c:
    "parse_chunk ?T zero_counts [0xE2] 0 = Some (r1, s1)"
    "parse_chunk ?T zero_counts [0x82, 0xAC] s1 = Some (r2, s2)"
    "parse_chunk ?T zero_counts ([0xE2] @ [0x82, 0xAC]) 0 = Some (sum_results r1 r2, s2)"
    using C1_chunking_invariance [OF l, of c_isspace c_iswspace True zero_counts zero_counts
        zero_counts]
    by blast
  have "r1 = \<lparr>line_count = 0, word_count = 0, char_count = 0, byte_count = 1\<rparr>"
       "s1 = USPACE + TRI2_E2"
    using c(1) 1 by simp_all
  moreover from this have "r2 = \<lparr>line_count = 0, word_count = 1, char_count = 1, byte_count = 2\<rparr>"
       "s2 = NEWWORD"
    using c(2) 2 by simp_all
  ultimately show ?thesis
    using l 1 2 c(3) by simp
qed

text \<open>
  Claim C3, as stated: for every buffer the three functions return the same results.
  The tallies of \<open>parse_chunk_pp\<close> are \<open>unsigned long\<close>, those of \<open>parse_chunk\<close> are
  \<open>unsigned\<close>: on a buffer of \<open>2^32\<close> new-line bytes, in the ASCII mode, with pointers
  of 8 bytes and \<open>table_p\<close> at the address 4096, \<open>parse_chunk_pp\<close> returns
  \<open>line_count = 2^32\<close> and \<open>parse_chunk\<close> returns \<open>line_count = 0\<close>.
\<close>

theorem C3_counterexample:
  "compile_pointers (the_table c_isspace c_iswspace False) 4096 8 zero_table \<noteq> None \<and>
   parse_chunk_pp (the (compile_pointers (the_table c_isspace c_iswspace False) 4096 8 zero_table))
       4096 8 zero_counts (replicate 4294967296 0x0A) 0 =
     Some (\<lparr>line_count = 4294967296, word_count = 0, char_count = 4294967296,
            byte_count = 4294967296\<rparr>, NEWLINE) \<and>
   parse_chunk (the_table c_isspace c_iswspace False) zero_counts (replicate 4294967296 0x0A) 0 =
     Some (\<lparr>line_count = 0, word_count = 0, char_count = 0, byte_count = 4294967296\<rparr>, NEWLINE)"
proof -
  have s: "(0::nat) < 4" and n: "(0::nat) < 4294967296" by simp_all
  note tp = compile_pointers_the [OF eight_pos, of "the_table c_isspace c_iswspace False" 4096
      zero_table]
  have "compile_pointers (the_table c_isspace c_iswspace False) 4096 8 zero_table \<noteq> None"
    using tp by (metis option.distinct(1))
  then show ?thesis
    by (simp add: ascii_newlines_chunk [OF s n] ascii_newlines_chunk_pp [OF s n eight_pos tp])
qed

text \<open>
  Claim C3, amended: for every inbound state below \<open>STATE_MAX\<close> and either mode of the
  table, \<open>parse_chunk_p\<close> returns the results and the outbound state of \<open>parse_chunk\<close> on
  every buffer; \<open>compile_pointers\<close> passes all its assertions and yields a table of
  pointers on which \<open>parse_chunk_pp\<close> returns the results and the outbound state of
  \<open>parse_chunk\<close> on every buffer of fewer than \<open>2^32\<close> bytes; and \<open>parse_chunk\<close> does
  return. This holds wherever \<open>table_p\<close> lies (\<open>base\<close>), whatever it held before
  (\<open>tp0\<close>), for every size \<open>psz > 0\<close> of a pointer, and whatever the three arrays
  \<open>counts\<close> held at first.
\<close>

theorem C3_pointer_variants:
  assumes "0 < psz" "state < STATE_MAX"
  shows
    "parse_chunk_p (the_table isspace iswspace is_multibyte) uninit_p buf state =
       parse_chunk (the_table isspace iswspace is_multibyte) uninit buf state \<and>
     (\<exists>tp. compile_pointers (the_table isspace iswspace is_multibyte) base psz tp0 = Some tp \<and>
        (length buf < 2 ^ 32 \<longrightarrow>
           parse_chunk_pp tp base psz uninit_pp buf state =
             parse_chunk (the_table isspace iswspace is_multibyte) uninit buf state)) \<and>
     (\<exists>res st. parse_chunk (the_table isspace iswspace is_multibyte) uninit buf state =
        Some (res, st))"
proof -
  let ?T = "the_table isspace iswspace is_multibyte"
  note tp = compile_pointers_the [OF assms(1), of ?T base tp0]
  have "parse_chunk_pp (the (compile_pointers ?T base psz tp0)) base psz uninit_pp buf state =
          parse_chunk ?T uninit buf state" if "length buf < 2 ^ 32"
    by (simp add: parse_chunk_pp_the_table [OF assms tp] parse_chunk_small [OF assms(2) that])
  then show ?thesis
    using tp parse_chunk_p_the_table [OF assms(2), of isspace iswspace is_multibyte uninit_p buf uninit]
    by (auto simp add: parse_chunk_the_table [OF assms(2)])
qed

text \<open>
  Pointers of 8 bytes, \<open>table_p\<close> at the address 4096, the Euro sign on the multibyte
  table of the "C" locale.
\<close>

theorem C3_pointer_variants_witness:
  "(0::nat) < 8 \<and> (0::nat) < STATE_MAX \<and> length [0xE2, 0x82, 0xAC :: byte] < 2 ^ 32 \<and>
   parse_chunk_p (the_table c_isspace c_iswspace True) zero_counts [0xE2, 0x82, 0xAC] 0 =
     parse_chunk (the_table c_isspace c_iswspace True) zero_counts [0xE2, 0x82, 0xAC] 0 \<and>
   (\<exists>tp. compile_pointers (the_table c_isspace c_iswspace True) 4096 8 zero_table = Some tp \<and>
      parse_chunk_pp tp 4096 8 zero_counts [0xE2, 0x82, 0xAC] 0 =
        parse_chunk (the_table c_isspace c_iswspace True) zero_counts [0xE2, 0x82, 0xAC] 0) \<and>
   (\<exists>res st. parse_chunk (the_table c_isspace c_iswspace True) zero_counts [0xE2, 0x82, 0xAC] 0 =
      Some (res, st))"
  using C3_pointer_variants [OF eight_pos zero_in_domain, of c_isspace c_iswspace True
      zero_counts "[0xE2, 0x82, 0xAC]" zero_counts 4096 zero_table zero_counts]
    zero_in_domain
  by simp


section \<open>The claims about the table\<close>

text \<open>
  Claim C10, as stated: every cell of the table is below \<open>STATE_MAX\<close>, and
  \<open>STATE_MAX\<close> is 64. The enum makes \<open>STATE_MAX\<close> 66, and the multibyte table holds
  the state 65 (\<open>UWORD + ILLEGAL\<close>), for instance in the row of WASWORD at the byte 0x80:
  a cell that is not below 64.
\<close>

theorem C10_counterexample:
  "STATE_MAX = 66 \<and> \<not> the_table c_isspace c_iswspace True WASWORD 0x80 < 64"
  by (simp add: STATE_MAX_eq the_table_mb_word_rows basic_cell_cont state_enum utf8_enum)

text \<open>
  Claim C10, amended: \<open>STATE_MAX\<close> is 66; every cell of the table, in either mode, is
  below \<open>STATE_MAX\<close>; so the state that \<open>parse_chunk\<close> carries from the initial state 0
  is below \<open>STATE_MAX\<close> after every buffer (hence after every byte, a prefix being a
  buffer), and \<open>parse_chunk\<close> never reads outside the table nor counts outside
  \<open>counts\<close>: it returns a result.
\<close>

theorem C10_table_in_domain:
  "STATE_MAX = 66 \<and>
   the_table isspace iswspace is_multibyte r c < STATE_MAX \<and>
   run (the_table isspace iswspace is_multibyte) 0 buf < STATE_MAX \<and>
   (\<exists>res. parse_chunk (the_table isspace iswspace is_multibyte) uninit buf 0 =
             Some (res, run (the_table isspace iswspace is_multibyte) 0 buf))"
  by (simp add: STATE_MAX_eq [symmetric] the_table_bounded run_closed [OF the_table_closed zero_in_domain]
      parse_chunk_the_table [OF zero_in_domain])

text \<open>
  Claim C8. The three bytes 0xE2 0x82 0xAC (the Euro sign) alone, from the initial state,
  on the multibyte table: no line, one word, one character, three bytes. The last
  transition goes to the cell that the ILLEGAL row holds for the byte 0, which is NEWWORD
  when the C library does not class the byte 0 as white space, as in every usual locale.
\<close>

theorem C8_euro_sign:
  assumes "\<not> isspace 0"
  shows "parse_chunk (the_table isspace iswspace True) uninit [0xE2, 0x82, 0xAC] 0 =
     Some (\<lparr>line_count = 0, word_count = 1, char_count = 1, byte_count = 3\<rparr>, NEWWORD)"
  by (simp add: parse_chunk_the_table [OF zero_in_domain] euro_cells [of isspace iswspace, OF assms] run_def state_enum)

text \<open>The same in the "C" locale.\<close>

theorem C8_euro_sign_witness:
  "\<not> c_isspace 0 \<and>
   parse_chunk (the_table c_isspace c_iswspace True) zero_counts [0xE2, 0x82, 0xAC] 0 =
     Some (\<lparr>line_count = 0, word_count = 1, char_count = 1, byte_count = 3\<rparr>, NEWWORD)"
  using C8_euro_sign [of c_isspace c_iswspace zero_counts] c_isspace_0 by simp

text \<open>
  Claim C4. In the multibyte table, for each of the two contexts (base \<open>ub\<close>, with a
  counted state \<open>b\<close> of the context):
  the lead bytes 0xC0, 0xC1 and 0xF5 to 0xFF go to the ILLEGAL state of the context, from
  \<open>b\<close> and from every state \<open>ub + i\<close> of the context;
  the lead bytes 0xE0, 0xED, 0xF0 and 0xF4 go from \<open>b\<close> to the states TRI2_E0, TRI2_ED,
  QUAD2_F0 and QUAD2_F4 of the context;
  from these, a byte of 0x80 to 0xBF goes on to the next state of the sequence when it
  lies in 0xA0 to 0xBF (after 0xE0), 0x80 to 0x9F (after 0xED), 0x90 to 0xBF (after 0xF0),
  0x80 to 0x8F (after 0xF4), and to ILLEGAL otherwise;
  and no other byte at all goes on to that next state.
\<close>

theorem C4_restricted_ranges:
  assumes "utf8_context ub d b"
  shows
    "(\<forall>c. c = 0xC0 \<or> c = 0xC1 \<or> (0xF5 \<le> c \<and> c \<le> 0xFF) \<longrightarrow>
          the_table isspace iswspace True b c = ub + ILLEGAL \<and>
          (\<forall>i\<le>ILLEGAL. the_table isspace iswspace True (ub + i) c = ub + ILLEGAL)) \<and>
     the_table isspace iswspace True b 0xE0 = ub + TRI2_E0 \<and>
     the_table isspace iswspace True b 0xED = ub + TRI2_ED \<and>
     the_table isspace iswspace True b 0xF0 = ub + QUAD2_F0 \<and>
     the_table isspace iswspace True b 0xF4 = ub + QUAD2_F4 \<and>
     (\<forall>c. 0x80 \<le> c \<and> c \<le> 0xBF \<longrightarrow>
          the_table isspace iswspace True (ub + TRI2_E0) c =
            (if 0xA0 \<le> c then ub + TRI3_E0_xx else ub + ILLEGAL) \<and>
          the_table isspace iswspace True (ub + TRI2_ED) c =
            (if c \<le> 0x9F then ub + TRI3_Ed_xx else ub + ILLEGAL) \<and>
          the_table isspace iswspace True (ub + QUAD2_F0) c =
            (if 0x90 \<le> c then ub + QUAD3_F0_xx else ub + ILLEGAL) \<and>
          the_table isspace iswspace True (ub + QUAD2_F4) c =
            (if c \<le> 0x8F then ub + QUAD3_F4_xx else ub + ILLEGAL)) \<and>
     (\<forall>c<256.
          (the_table isspace iswspace True (ub + TRI2_E0) c = ub + TRI3_E0_xx) =
            (0xA0 \<le> c \<and> c \<le> 0xBF) \<and>
          (the_table isspace iswspace True (ub + TRI2_ED) c = ub + TRI3_Ed_xx) =
            (0x80 \<le> c \<and> c \<le> 0x9F) \<and>
          (the_table isspace iswspace True (ub + QUAD2_F0) c = ub + QUAD3_F0_xx) =
            (0x90 \<le> c \<and> c \<le> 0xBF) \<and>
          (the_table isspace iswspace True (ub + QUAD2_F4) c = ub + QUAD3_F4_xx) =
            (0x80 \<le> c \<and> c \<le> 0x8F))"
proof -
  have only: "(the_table isspace iswspace True (ub + TRI2_E0) c = ub + TRI3_E0_xx) =
            (0xA0 \<le> c \<and> c \<le> 0xBF) \<and>
          (the_table isspace iswspace True (ub + TRI2_ED) c = ub + TRI3_Ed_xx) =
            (0x80 \<le> c \<and> c \<le> 0x9F) \<and>
          (the_table isspace iswspace True (ub + QUAD2_F0) c = ub + QUAD3_F0_xx) =
            (0x90 \<le> c \<and> c \<le> 0xBF) \<and>
          (the_table isspace iswspace True (ub + QUAD2_F4) c = ub + QUAD3_F4_xx) =
            (0x80 \<le> c \<and> c \<le> 0x8F)" if c: "c < 256" for c
  proof -
    note o = context_only_range [OF assms _ _ _ c, of _ _ isspace iswspace]
    have 1: "(the_table isspace iswspace True (ub + TRI2_E0) c = ub + TRI3_E0_xx) =
            (0x80 \<le> c \<and> c \<le> 0xBF \<and> 0xA0 \<le> c)"
      by (rule o) (simp_all add: context_restricted_rows [OF assms], simp_all add: utf8_enum)
    have 2: "(the_table isspace iswspace True (ub + TRI2_ED) c = ub + TRI3_Ed_xx) =
            (0x80 \<le> c \<and> c \<le> 0xBF \<and> c \<le> 0x9F)"
      by (rule o) (simp_all add: context_restricted_rows [OF assms], simp_all add: utf8_enum)
    have 3: "(the_table isspace iswspace True (ub + QUAD2_F0) c = ub + QUAD3_F0_xx) =
            (0x80 \<le> c \<and> c \<le> 0xBF \<and> 0x90 \<le> c)"
      by (rule o) (simp_all add: context_restricted_rows [OF assms], simp_all add: utf8_enum)
    have 4: "(the_table isspace iswspace True (ub + QUAD2_F4) c = ub + QUAD3_F4_xx) =
            (0x80 \<le> c \<and> c \<le> 0xBF \<and> c \<le> 0x8F)"
      by (rule o) (simp_all add: context_restricted_rows [OF assms], simp_all add: utf8_enum)
    show ?thesis
      using 1 2 3 4 by auto
  qed
  show ?thesis
    using context_illegal_lead [OF assms] context_lead_states [OF assms]
      context_restricted_rows [OF assms] only
    by simp
qed

text \<open>The context of USPACE in the "C" locale, at the ends of the ranges.\<close>

theorem C4_restricted_ranges_witness:
  "utf8_context USPACE NEWWORD WASSPACE \<and>
   the_table c_isspace c_iswspace True WASSPACE 0xC0 = USPACE + ILLEGAL \<and>
   the_table c_isspace c_iswspace True (USPACE + TRI2_E0) 0xF5 = USPACE + ILLEGAL \<and>
   the_table c_isspace c_iswspace True WASSPACE 0xE0 = USPACE + TRI2_E0 \<and>
   the_table c_isspace c_iswspace True (USPACE + TRI2_E0) 0x9F = USPACE + ILLEGAL \<and>
   the_table c_isspace c_iswspace True (USPACE + TRI2_E0) 0xA0 = USPACE + TRI3_E0_xx \<and>
   the_table c_isspace c_iswspace True (USPACE + TRI2_ED) 0x9F = USPACE + TRI3_Ed_xx \<and>
   the_table c_isspace c_iswspace True (USPACE + TRI2_ED) 0xA0 = USPACE + ILLEGAL"
proof -
  note t = C4_restricted_ranges [OF utf8_context_USPACE, of c_isspace c_iswspace]
  have a: "the_table c_isspace c_iswspace True WASSPACE 0xC0 = USPACE + ILLEGAL \<and>
           (\<forall>i\<le>ILLEGAL. the_table c_isspace c_iswspace True (USPACE + i) 0xF5 = USPACE + ILLEGAL)"
    using t by simp
  have "TRI2_E0 \<le> ILLEGAL"
    by (simp add: utf8_enum)
  then have b: "the_table c_isspace c_iswspace True (USPACE + TRI2_E0) 0xF5 = USPACE + ILLEGAL"
    using a by blast
  have c: "the_table c_isspace c_iswspace True (USPACE + TRI2_E0) 0x9F = USPACE + ILLEGAL \<and>
           the_table c_isspace c_iswspace True (USPACE + TRI2_E0) 0xA0 = USPACE + TRI3_E0_xx \<and>
           the_table c_isspace c_iswspace True (USPACE + TRI2_ED) 0x9F = USPACE + TRI3_Ed_xx \<and>
           the_table c_isspace c_iswspace True (USPACE + TRI2_ED) 0xA0 = USPACE + ILLEGAL"
    using t by simp
  show ?thesis
    using utf8_context_USPACE a b c t by simp
qed

text \<open>
  Claim C5. In the multibyte table, for each of the two contexts:
  from the ILLEGAL state every continuation byte (0x80 to 0xBF) goes back to the ILLEGAL
  state of the context;
  the ILLEGAL row maps the ASCII bytes and the lead bytes (0xC0 to 0xFF) as the row of a
  counted state \<open>b\<close> of the context does;
  the transition that completes a sequence (a continuation byte read in a state that
  waits for the last byte) lands in one of the four counted states, whose rows are the
  base automaton, so the bytes that follow are mapped as the base automaton maps them;
  from every state of the context an ASCII byte is mapped as from \<open>b\<close>;
  and the rows of the four counted states map the ASCII bytes as the four-state table
  of the ASCII mode does.
\<close>

theorem C5_illegal_stays_illegal:
  assumes "utf8_context ub d b"
  shows
    "(\<forall>c. 0x80 \<le> c \<and> c \<le> 0xBF \<longrightarrow>
          the_table isspace iswspace True (ub + ILLEGAL) c = ub + ILLEGAL) \<and>
     (\<forall>c. c < 0x80 \<or> (0xC0 \<le> c \<and> c \<le> 0xFF) \<longrightarrow>
          the_table isspace iswspace True (ub + ILLEGAL) c = the_table isspace iswspace True b c) \<and>
     (\<forall>i c. last_byte_state i \<and> 0x80 \<le> c \<and> c \<le> 0xBF \<longrightarrow>
          the_table isspace iswspace True (ub + i) c \<in> {WASSPACE, NEWLINE, NEWWORD, WASWORD}) \<and>
     (\<forall>i c. i \<le> ILLEGAL \<and> c < 0x80 \<longrightarrow>
          the_table isspace iswspace True (ub + i) c = the_table isspace iswspace True b c) \<and>
     (\<forall>c. c < 0x80 \<longrightarrow>
          the_table isspace iswspace True b c = the_table isspace iswspace False b c)"
proof -
  have 1: "the_table isspace iswspace True (ub + ILLEGAL) c = ub + ILLEGAL"
    if "0x80 \<le> c \<and> c \<le> 0xBF" for c
  proof -
    have c: "0x80 \<le> c" "c < 0xC0" "c < 256" using that by auto
    show ?thesis
      using context_ILLEGAL_row [OF assms c(3), of isspace iswspace] basic_cell_cont [OF c(1,2), of isspace d ub]
        context_mod [OF assms, of ILLEGAL] by simp
  qed
  have 2: "the_table isspace iswspace True (ub + ILLEGAL) c = the_table isspace iswspace True b c"
    if "c < 0x80 \<or> (0xC0 \<le> c \<and> c \<le> 0xFF)" for c
  proof -
    have c: "c < 256" using that by auto
    show ?thesis
      by (simp add: context_ILLEGAL_row [OF assms c] context_base_row [OF assms c])
  qed
  have 3: "the_table isspace iswspace True (ub + i) c \<in> {WASSPACE, NEWLINE, NEWWORD, WASWORD}"
    if "last_byte_state i \<and> 0x80 \<le> c \<and> c \<le> 0xBF" for i c
    using context_last_byte [of ub d b i c isspace iswspace] that assms
    by (auto simp: utf8_context_def)
  show ?thesis
    using 1 2 3 context_row_ascii [OF assms] base_rows_ascii_mode [OF assms]
    by blast
qed

text \<open>The context of UWORD in the "C" locale.\<close>

theorem C5_illegal_stays_illegal_witness:
  "utf8_context UWORD WASWORD NEWWORD \<and>
   the_table c_isspace c_iswspace True (UWORD + ILLEGAL) 0x80 = UWORD + ILLEGAL \<and>
   the_table c_isspace c_iswspace True (UWORD + ILLEGAL) 0x41 =
     the_table c_isspace c_iswspace True NEWWORD 0x41 \<and>
   the_table c_isspace c_iswspace True (UWORD + ILLEGAL) 0xC2 =
     the_table c_isspace c_iswspace True NEWWORD 0xC2 \<and>
   last_byte_state DUO2_xx \<and>
   the_table c_isspace c_iswspace True (UWORD + DUO2_xx) 0xA9
     \<in> {WASSPACE, NEWLINE, NEWWORD, WASWORD} \<and>
   the_table c_isspace c_iswspace True NEWWORD 0x41 =
     the_table c_isspace c_iswspace False NEWWORD 0x41"
proof -
  note t = C5_illegal_stays_illegal [OF utf8_context_UWORD, of c_isspace c_iswspace]
  have l: "last_byte_state DUO2_xx"
    by (simp add: last_byte_state_def)
  have a: "the_table c_isspace c_iswspace True (UWORD + ILLEGAL) 0x80 = UWORD + ILLEGAL"
    using t by simp
  have b: "the_table c_isspace c_iswspace True (UWORD + ILLEGAL) 0x41 =
             the_table c_isspace c_iswspace True NEWWORD 0x41"
          "the_table c_isspace c_iswspace True (UWORD + ILLEGAL) 0xC2 =
             the_table c_isspace c_iswspace True NEWWORD 0xC2"
    using t by simp_all
  have c: "the_table c_isspace c_iswspace True (UWORD + DUO2_xx) 0xA9
             \<in> {WASSPACE, NEWLINE, NEWWORD, WASWORD}"
    using t l by simp
  have d: "the_table c_isspace c_iswspace True NEWWORD 0x41 =
             the_table c_isspace c_iswspace False NEWWORD 0x41"
    using t by simp
  show ?thesis
    using utf8_context_UWORD l a b c d by simp
qed


section \<open>The claims about the counts\<close>




text \<open>
  Claim C7, as stated: \<open>word_count\<close> is \<open>k\<close> for every such input. The tally of NEWWORD
  is \<open>unsigned\<close>: the input of \<open>2^32\<close> one-letter words \<open>a\<close> separated by single
  spaces has \<open>k = 2^32\<close>, and \<open>word_count\<close> is 0.
\<close>

theorem C7_counterexample:
  "Suc (length (replicate 4294967295 (0x20 :: byte, [0x61 :: byte]))) = 4294967296 \<and>
   map_option (word_count \<circ> fst)
     (parse_chunk (the_table c_isspace c_iswspace False) zero_counts
        (sentence [0x61] (replicate 4294967295 (0x20, [0x61]))) 0) = Some 0"
proof -
  have 1: "\<forall>w\<in>set ([0x61 :: byte] # map snd (replicate 4294967295 (0x20 :: byte, [0x61 :: byte]))).
      w \<noteq> [] \<and> (\<forall>b\<in>set w. unat b \<noteq> 0x0A \<and> \<not> c_isspace (unat b))"
    by (simp add: c_isspace_def)
  have 2: "\<forall>s\<in>set (map fst (replicate 4294967295 (0x20 :: byte, [0x61 :: byte]))).
      unat s \<noteq> 0x0A \<and> c_isspace (unat s)"
    by (simp add: c_isspace_def)
  have 3: "0 = WASSPACE \<or> 0 = NEWLINE" by (simp add: state_enum)
  show ?thesis
    using ascii_sentence_trace [OF 1 2 3, of c_iswspace]
    by (simp add: parse_chunk_the_table [OF zero_in_domain])
qed

text \<open>
  Claim C7, amended. An ASCII-only input without a new-line byte that consists of \<open>k\<close>
  maximal runs of non-space bytes separated by single space bytes is
  \<open>sentence w0 rest\<close>: the word \<open>w0\<close>, then for each pair of \<open>rest\<close> one separator byte
  and one more word, so that \<open>k\<close> is \<open>Suc (length rest)\<close>; or it is empty, with \<open>k = 0\<close>.
  Every word is non-empty and made of ASCII bytes that are neither the new-line nor white
  space for \<open>isspace\<close>; every separator is an ASCII white-space byte other than the
  new-line. When \<open>k\<close> is below \<open>2^32\<close>, from the initial state, on the ASCII table,
  \<open>word_count\<close> is \<open>k\<close> and \<open>line_count\<close> is 0.
\<close>

theorem C7_ascii_words:
  assumes "\<forall>w\<in>set (w0 # map snd rest).
             w \<noteq> [] \<and> (\<forall>b\<in>set w. unat b < 0x80 \<and> unat b \<noteq> 0x0A \<and> \<not> isspace (unat b))"
    and "\<forall>s\<in>set (map fst rest). unat s < 0x80 \<and> unat s \<noteq> 0x0A \<and> isspace (unat s)"
    and "Suc (length rest) < 2 ^ 32"
  shows "(\<exists>r st. parse_chunk (the_table isspace iswspace False) uninit (sentence w0 rest) 0 =
                   Some (r, st) \<and>
                 unat (word_count r) = Suc (length rest) \<and> line_count r = 0) \<and>
         (\<exists>r st. parse_chunk (the_table isspace iswspace False) uninit [] 0 = Some (r, st) \<and>
                 word_count r = 0 \<and> line_count r = 0)"
proof -
  have 1: "\<forall>w\<in>set (w0 # map snd rest). w \<noteq> [] \<and> (\<forall>b\<in>set w. unat b \<noteq> 0x0A \<and> \<not> isspace (unat b))"
    using assms(1) by simp
  have 2: "\<forall>s\<in>set (map fst rest). unat s \<noteq> 0x0A \<and> isspace (unat s)"
    using assms(2) by simp
  have 3: "0 = WASSPACE \<or> 0 = NEWLINE" by (simp add: state_enum)
  have k: "Suc (length rest) < 2 ^ 64"
    using assms(3) by (rule less_trans) simp
  have w: "unat (ucast (of_nat (Suc (length rest)) :: uint) :: ulong) = Suc (length rest)"
    using widen_small [OF assms(3)] unat_ulong_small [OF k] by simp
  show ?thesis
    using ascii_sentence_trace [OF 1 2 3, of iswspace] w
    by (simp add: parse_chunk_the_table [OF zero_in_domain])
qed

text \<open>
  Three words, separated by a space and by a tab, in the "C" locale.
\<close>

theorem C7_ascii_words_witness:
  "sentence [0x68, 0x69] [(0x20, [0x79, 0x6F, 0x75]), (0x09, [0x21])] =
     [0x68, 0x69, 0x20, 0x79, 0x6F, 0x75, 0x09, 0x21] \<and>
   \<not> c_isspace (unat (0x68 :: byte)) \<and> c_isspace (unat (0x20 :: byte)) \<and>
   c_isspace (unat (0x09 :: byte)) \<and>
   Suc (length [(0x20 :: byte, [0x79, 0x6F, 0x75 :: byte]), (0x09, [0x21])]) < 2 ^ 32 \<and>
   (\<exists>r st. parse_chunk (the_table c_isspace c_iswspace False) zero_counts
              [0x68, 0x69, 0x20, 0x79, 0x6F, 0x75, 0x09, 0x21] 0 = Some (r, st) \<and>
            unat (word_count r) = 3 \<and> line_count r = 0)"
proof -
  have 1: "\<forall>w\<in>set ([0x68, 0x69 :: byte] # map snd [(0x20 :: byte, [0x79, 0x6F, 0x75 :: byte]), (0x09, [0x21])]).
      w \<noteq> [] \<and> (\<forall>b\<in>set w. unat b < 0x80 \<and> unat b \<noteq> 0x0A \<and> \<not> c_isspace (unat b))"
    by (simp add: c_isspace_def)
  have 2: "\<forall>s\<in>set (map fst [(0x20 :: byte, [0x79, 0x6F, 0x75 :: byte]), (0x09, [0x21])]).
      unat s < 0x80 \<and> unat s \<noteq> 0x0A \<and> c_isspace (unat s)"
    by (simp add: c_isspace_def)
  have 3: "Suc (length [(0x20 :: byte, [0x79, 0x6F, 0x75 :: byte]), (0x09, [0x21])]) < 2 ^ 32"
    by simp
  show ?thesis
    using 1 2 3 C7_ascii_words [OF 1 2 3, of c_iswspace zero_counts]
    by (simp add: numeral_3_eq_3)
qed


end
